theory Spec2Isabelle
  imports Main "HOL-Library.Word"
begin

unbundle bit_operations_syntax

section \<open>Data model (types.go)\<close>

text \<open>
  Go's \<^verbatim>\<open>net.IP\<close> is a byte slice and a Go string is a byte sequence: both are lists
  of 8-bit values here. \<^verbatim>\<open>HostType\<close> is an \<^verbatim>\<open>int\<close> with three named constants.
\<close>

type_synonym byte = "8 word"
type_synonym ip = "byte list"

type_synonym HostType = int

definition HostTypeIP :: HostType where "HostTypeIP = 1"
definition HostTypeCIDR :: HostType where "HostTypeCIDR = 2"
definition HostTypeDomain :: HostType where "HostTypeDomain = 3"

record Host =
  IP :: ip
  Origin :: string
  Type :: HostType

text \<open>A run-time panic of the Go program is the only error value of the pure part.\<close>

datatype error = Panic

section \<open>IP arithmetic (utils.go, NextIP)\<close>

text \<open>
  \<^verbatim>\<open>big.Int.SetBytes\<close> reads a byte slice as a big-endian unsigned integer;
  \<^verbatim>\<open>big.Int.Bytes\<close> returns the absolute value as a big-endian byte slice without
  leading zero bytes (the empty slice for zero). \<^verbatim>\<open>make([]byte, n)\<close> panics when
  \<open>n\<close> is negative.
\<close>

definition SetBytes :: "byte list \<Rightarrow> int" where
  "SetBytes bs = foldl (\<lambda>a b. a * 256 + uint b) 0 bs"

function Bytes :: "int \<Rightarrow> byte list" where
  "Bytes x = (if x = 0 then [] else Bytes (\<bar>x\<bar> div 256) @ [word_of_int (\<bar>x\<bar> mod 256)])"
  by pat_completeness auto
termination
  by (relation "measure (\<lambda>x. nat \<bar>x\<bar>)") auto

declare Bytes.simps [simp del]

definition make_bytes :: "int \<Rightarrow> error + byte list" where
  "make_bytes n = (if n < 0 then Inl Panic else Inr (replicate (nat n) 0))"

definition NextIP :: "ip \<Rightarrow> bool \<Rightarrow> error + ip" where
  "NextIP ip increment =
     (let ipb = SetBytes ip;
          ipb = (if increment then ipb + 1 else ipb - 1);
          b = Bytes ipb
      in case (if length ip = 4 then make_bytes (4 - int (length b))
               else make_bytes (16 - int (length b))) of
           Inl e \<Rightarrow> Inl e
         | Inr pad \<Rightarrow> Inr (pad @ b))"

section \<open>Library predicates on addresses (Go's net package)\<close>

text \<open>
  \<^verbatim>\<open>IP.To4\<close> returns a 4-byte address as it is, the last four bytes of an
  IPv4-mapped 16-byte address, and nil otherwise. \<^verbatim>\<open>IPNet.Contains\<close> compares
  the masked bytes of the network number and of the address, both normalised by \<^verbatim>\<open>To4\<close>.
\<close>

record IPNet =
  NetIP :: ip
  Mask :: "byte list"

definition To4 :: "ip \<Rightarrow> ip option" where
  "To4 a = (if length a = 4 then Some a
            else if length a = 16 \<and> take 10 a = replicate 10 0 \<and> a ! 10 = 255 \<and> a ! 11 = 255
                 then Some (drop 12 a)
            else None)"

definition networkNumberAndMask :: "IPNet \<Rightarrow> ip \<times> byte list" where
  "networkNumberAndMask n =
     (case (case To4 (NetIP n) of Some a \<Rightarrow> Some a
            | None \<Rightarrow> if length (NetIP n) \<noteq> 16 then None else Some (NetIP n)) of
        None \<Rightarrow> ([], [])
      | Some a \<Rightarrow>
          if length (Mask n) = 4 then (if length a \<noteq> 4 then ([], []) else (a, Mask n))
          else if length (Mask n) = 16
               then (if length a = 4 then (a, drop 12 (Mask n)) else (a, Mask n))
          else ([], []))"

definition Contains :: "IPNet \<Rightarrow> ip \<Rightarrow> bool" where
  "Contains n a =
     (let (nn, m) = networkNumberAndMask n;
          a = (case To4 a of Some x \<Rightarrow> x | None \<Rightarrow> a)
      in if length a \<noteq> length nn then False
         else list_all (\<lambda>i. (nn ! i) AND (m ! i) = (a ! i) AND (m ! i)) [0..<length a])"

definition IPv6loopback :: ip where
  "IPv6loopback = replicate 15 0 @ [1]"

definition IsLoopback :: "ip \<Rightarrow> bool" where
  "IsLoopback a = (case To4 a of Some ip4 \<Rightarrow> ip4 ! 0 = 127 | None \<Rightarrow> a = IPv6loopback)"

definition IsMulticast :: "ip \<Rightarrow> bool" where
  "IsMulticast a = (case To4 a of Some ip4 \<Rightarrow> (ip4 ! 0) AND 0xf0 = 0xe0
                    | None \<Rightarrow> length a = 16 \<and> a ! 0 = 255)"

text \<open>
  \<^verbatim>\<open>isValidIP\<close> (utils.go): the nil test is on the argument of Go's function; the
  addresses it is called with come out of \<^verbatim>\<open>NextIP\<close>, which never returns nil, so
  the argument here is a non-nil slice.
\<close>

definition isValidIP :: "ip \<Rightarrow> bool" where
  "isValidIP a = (if IsLoopback a then False else if IsMulticast a then False else True)"

section \<open>CIDR enumerator (utils.go, IterateCIDR and expandCIDR)\<close>

text \<open>
  The producer goroutine sends hosts on a channel; the model returns the hosts sent, in
  order, and says how the goroutine ended: by leaving its loop (the channel is then
  closed) or by a panic, which ends the process. \<^verbatim>\<open>net.ParseCIDR\<close> is a parameter:
  \<open>None\<close> is its error return, \<open>Some n\<close> the network it returns.
\<close>

datatype ending = Closed | Crashed

definition maxHosts :: int where "maxHosts = 65536"

function cidr_loop :: "IPNet \<Rightarrow> string \<Rightarrow> ip \<Rightarrow> int \<Rightarrow> Host list \<times> ending" where
  "cidr_loop ipNet cidr a count =
     (if \<not> Contains ipNet a then ([], Closed)
      else if count \<ge> maxHosts then ([], Closed)
      else let newHost = \<lparr>Host.IP = a, Host.Origin = cidr, Host.Type = HostTypeIP\<rparr>
           in case NextIP a True of
                Inl e \<Rightarrow> ([newHost], Crashed)
              | Inr a' \<Rightarrow> (let (hs, r) = cidr_loop ipNet cidr a' (count + 1)
                           in (newHost # hs, r)))"
  by pat_completeness auto
termination
  by (relation "measure (\<lambda>(ipNet, cidr, a, count). nat (maxHosts - count))") auto

declare cidr_loop.simps [simp del]

definition IterateCIDR :: "(string \<Rightarrow> IPNet option) \<Rightarrow> string \<Rightarrow> Host list \<times> ending" where
  "IterateCIDR ParseCIDR cidr =
     (case ParseCIDR cidr of
        None \<Rightarrow> ([], Closed)
      | Some ipNet \<Rightarrow> cidr_loop ipNet cidr (NetIP ipNet) 0)"

text \<open>
  \<^verbatim>\<open>expandCIDR\<close> runs the same loop on \<^verbatim>\<open>host.Origin\<close>, sending on the caller's
  channel.
\<close>

definition expandCIDR :: "(string \<Rightarrow> IPNet option) \<Rightarrow> Host \<Rightarrow> Host list \<times> ending" where
  "expandCIDR ParseCIDR host =
     (case ParseCIDR (Host.Origin host) of
        None \<Rightarrow> ([], Closed)
      | Some ipNet \<Rightarrow> cidr_loop ipNet (Host.Origin host) (NetIP ipNet) 0)"

section \<open>Seed enumerator (utils.go, IterateAddr)\<close>

text \<open>
  Each iteration of the loop moves one cursor and yields one candidate, which is sent
  when \<^verbatim>\<open>isValidIP\<close> accepts it and skipped otherwise. The loop counter runs below
  \<^verbatim>\<open>math.MaxInt\<close>, here that of a 64-bit platform. \<^verbatim>\<open>net.ParseIP\<close> is a parameter.
\<close>

definition MaxInt :: int where "MaxInt = 2 ^ 63 - 1"

datatype seed_event = Sent Host | Skipped ip

fun candidate :: "seed_event \<Rightarrow> ip" where
  "candidate (Sent h) = Host.IP h"
| "candidate (Skipped a) = a"

fun sent :: "seed_event list \<Rightarrow> Host list" where
  "sent [] = []"
| "sent (Sent h # es) = h # sent es"
| "sent (Skipped a # es) = sent es"

definition offer :: "string \<Rightarrow> ip \<Rightarrow> seed_event" where
  "offer addr a = (if \<not> isValidIP a then Skipped a
                   else Sent \<lparr>Host.IP = a, Host.Origin = addr, Host.Type = HostTypeIP\<rparr>)"

function addr_loop :: "string \<Rightarrow> int \<Rightarrow> ip \<Rightarrow> ip \<Rightarrow> seed_event list \<times> ending" where
  "addr_loop addr i lowIP highIP =
     (if \<not> i < MaxInt then ([], Closed)
      else if i mod 2 = 0 then
        (case NextIP lowIP False of
           Inl e \<Rightarrow> ([], Crashed)
         | Inr lowIP' \<Rightarrow> (let (es, r) = addr_loop addr (i + 1) lowIP' highIP
                         in (offer addr lowIP' # es, r)))
      else
        (case NextIP highIP True of
           Inl e \<Rightarrow> ([], Crashed)
         | Inr highIP' \<Rightarrow> (let (es, r) = addr_loop addr (i + 1) lowIP highIP'
                          in (offer addr highIP' # es, r))))"
  by pat_completeness auto
termination
  by (relation "measure (\<lambda>(addr, i, lowIP, highIP). nat (MaxInt - i))") auto

declare addr_loop.simps [simp del]

definition IterateAddr :: "(string \<Rightarrow> ip option) \<Rightarrow> string \<Rightarrow> seed_event list \<times> ending" where
  "IterateAddr ParseIP addr =
     (case ParseIP addr of
        None \<Rightarrow> ([], Closed)
      | Some initialIP \<Rightarrow>
          (let (es, r) = addr_loop addr 0 initialIP initialIP
           in (Sent \<lparr>Host.IP = initialIP, Host.Origin = addr, Host.Type = HostTypeIP\<rparr> # es, r)))"

text \<open>The byte width \<^verbatim>\<open>NextIP\<close> pads to, and the integer it computes before padding.\<close>

definition width :: "ip \<Rightarrow> nat" where
  "width a = (if length a = 4 then 4 else 16)"

definition moved :: "ip \<Rightarrow> bool \<Rightarrow> int" where
  "moved a increment = (if increment then SetBytes a + 1 else SetBytes a - 1)"

section \<open>Configuration (main.go)\<close>

text \<open>
  The process-wide variables \<^verbatim>\<open>config\<close> and \<^verbatim>\<open>scanControl\<close> are read while a scan
  runs; the model passes them as arguments.
\<close>

record Config =
  Port :: int
  Thread :: int
  Timeout :: int
  Output :: string
  Verbose :: bool
  IPv6 :: bool

record ScanControl =
  MaxResults :: int
  StopOnMax :: bool
  PingDomain :: bool

section \<open>Scan results and the feasibility classifier (types.go, scanner.go)\<close>

record ScanResult =
  IP :: string
  Origin :: string
  Port :: int
  CertDomain :: string
  CertIssuer :: string
  TLSVersion :: string
  ALPN :: string
  Curve :: string
  GeoCode :: string
  Feasible :: bool
  ResponseTime :: int
  Error :: string

definition RequiredTLSVersion :: string where "RequiredTLSVersion = ''TLS 1.3''"
definition RequiredALPN :: string where "RequiredALPN = ''h2''"
definition RequiredCurve :: string where "RequiredCurve = ''X25519''"

text \<open>
  What the program reads of Go's \<^verbatim>\<open>x509.Certificate\<close>, \<^verbatim>\<open>tls.ConnectionState\<close> and
  \<^verbatim>\<open>tls.Config\<close>.
\<close>

record Certificate =
  DNSNames :: "string list"
  SubjectCommonName :: string
  IssuerCommonName :: string
  IssuerOrganization :: "string list"

record ConnectionState =
  Version :: "16 word"
  NegotiatedProtocol :: string
  CipherSuite :: "16 word"
  PeerCertificates :: "Certificate list"

record TLSConfig =
  InsecureSkipVerify :: bool
  NextProtos :: "string list"
  CurvePreferences :: "16 word list"
  ServerName :: string

definition X25519 :: "16 word" where "X25519 = 29"

text \<open>
  The world outside the program: the answers of the network, of the operating system
  and of the clock, and the library functions on strings and addresses that the
  program calls. A failing call answers with its error message.
\<close>

record World =
  net_LookupIP :: "string \<Rightarrow> string + ip list"
  net_DialTimeout :: "string \<Rightarrow> int \<Rightarrow> string option"
  tls_Handshake :: "string \<Rightarrow> TLSConfig \<Rightarrow> string + ConnectionState"
  http_Get :: "string \<Rightarrow> (int \<times> string option) option"
  exec_ping :: "string \<Rightarrow> bool"
  time_Since :: "string \<Rightarrow> int"
  net_ParseIP :: "string \<Rightarrow> ip option"
  net_ParseCIDR :: "string \<Rightarrow> IPNet option"
  ip_String :: "ip \<Rightarrow> string"
  strings_TrimSpace :: "string \<Rightarrow> string"

text \<open>The geolocation reader: absent, or a lookup that may fail.\<close>

record Geo =
  geoReader :: "(ip \<Rightarrow> string option) option"

definition GetGeo :: "Geo \<Rightarrow> ip \<Rightarrow> string" where
  "GetGeo g a = (case geoReader g of
                   None \<Rightarrow> ''UNKNOWN''
                 | Some country \<Rightarrow> (case country a of None \<Rightarrow> ''UNKNOWN'' | Some isoCode \<Rightarrow> isoCode))"

subsection \<open>Strings\<close>

text \<open>
  \<^verbatim>\<open>strings.HasPrefix\<close>, \<^verbatim>\<open>strings.Contains\<close>, \<^verbatim>\<open>strings.Join\<close>, \<^verbatim>\<open>strings.Split\<close> on a
  one-byte separator, \<^verbatim>\<open>strconv.Itoa\<close> and the format \<^verbatim>\<open>%04x\<close> of a 16-bit value.
\<close>

definition HasPrefix :: "string \<Rightarrow> string \<Rightarrow> bool" where
  "HasPrefix s p = (take (length p) s = p)"

fun strings_Contains :: "string \<Rightarrow> string \<Rightarrow> bool" where
  "strings_Contains [] sub = (sub = [])"
| "strings_Contains (c # s) sub = (HasPrefix (c # s) sub \<or> strings_Contains s sub)"

fun Join :: "string list \<Rightarrow> string \<Rightarrow> string" where
  "Join [] sep = []"
| "Join [x] sep = x"
| "Join (x # y # ys) sep = x @ sep @ Join (y # ys) sep"

fun Split :: "string \<Rightarrow> char \<Rightarrow> string list" where
  "Split [] sep = [[]]"
| "Split (c # s) sep =
     (if c = sep then [] # Split s sep
      else (case Split s sep of [] \<Rightarrow> [[c]] | l # ls \<Rightarrow> (c # l) # ls))"

definition digit :: "nat \<Rightarrow> char" where
  "digit d = ''0123456789abcdef'' ! d"

fun digits :: "nat \<Rightarrow> string" where
  "digits n = (if n < 10 then [digit n] else digits (n div 10) @ [digit (n mod 10)])"

declare digits.simps [simp del]

definition Itoa :: "int \<Rightarrow> string" where
  "Itoa i = (if i < 0 then CHR ''-'' # digits (nat (- i)) else digits (nat i))"

definition hex4 :: "16 word \<Rightarrow> string" where
  "hex4 v = [digit (unat v div 4096 mod 16), digit (unat v div 256 mod 16),
             digit (unat v div 16 mod 16), digit (unat v mod 16)]"

subsection \<open>Messages\<close>

text \<open>The UTF-8 bytes of the program's Chinese error messages.\<close>

definition msg_resolve_failed :: string where
  "msg_resolve_failed =
     [CHR 0xE5, CHR 0x9F, CHR 0x9F, CHR 0xE5, CHR 0x90, CHR 0x8D, CHR 0xE8, CHR 0xA7,
      CHR 0xA3, CHR 0xE6, CHR 0x9E, CHR 0x90, CHR 0xE5, CHR 0xA4, CHR 0xB1, CHR 0xE8,
      CHR 0xB4, CHR 0xA5, CHR 0x3A, CHR 0x20]"

definition msg_no_valid_ip :: string where
  "msg_no_valid_ip =
     [CHR 0xE6, CHR 0xB2, CHR 0xA1, CHR 0xE6, CHR 0x9C, CHR 0x89, CHR 0xE6, CHR 0x89,
      CHR 0xBE, CHR 0xE5, CHR 0x88, CHR 0xB0, CHR 0xE6, CHR 0x9C, CHR 0x89, CHR 0xE6,
      CHR 0x95, CHR 0x88, CHR 0xE7, CHR 0x9A, CHR 0x84, CHR 0x49, CHR 0x50, CHR 0xE5,
      CHR 0x9C, CHR 0xB0, CHR 0xE5, CHR 0x9D, CHR 0x80]"

definition msg_unsupported_type :: string where
  "msg_unsupported_type =
     [CHR 0xE4, CHR 0xB8, CHR 0x8D, CHR 0xE6, CHR 0x94, CHR 0xAF, CHR 0xE6, CHR 0x8C,
      CHR 0x81, CHR 0xE7, CHR 0x9A, CHR 0x84, CHR 0xE4, CHR 0xB8, CHR 0xBB, CHR 0xE6,
      CHR 0x9C, CHR 0xBA, CHR 0xE7, CHR 0xB1, CHR 0xBB, CHR 0xE5, CHR 0x9E, CHR 0x8B]"

definition msg_tcp_failed :: string where
  "msg_tcp_failed =
     [CHR 0x54, CHR 0x43, CHR 0x50, CHR 0xE8, CHR 0xBF, CHR 0x9E, CHR 0xE6, CHR 0x8E,
      CHR 0xA5, CHR 0xE5, CHR 0xA4, CHR 0xB1, CHR 0xE8, CHR 0xB4, CHR 0xA5, CHR 0x3A,
      CHR 0x20]"

definition msg_tls_failed :: string where
  "msg_tls_failed =
     [CHR 0x54, CHR 0x4C, CHR 0x53, CHR 0xE6, CHR 0x8F, CHR 0xA1, CHR 0xE6, CHR 0x89,
      CHR 0x8B, CHR 0xE5, CHR 0xA4, CHR 0xB1, CHR 0xE8, CHR 0xB4, CHR 0xA5, CHR 0x3A,
      CHR 0x20]"

definition msg_unparseable :: string where
  "msg_unparseable =
     [CHR 0xE6, CHR 0x97, CHR 0xA0, CHR 0xE6, CHR 0xB3, CHR 0x95, CHR 0xE8, CHR 0xA7,
      CHR 0xA3, CHR 0xE6, CHR 0x9E, CHR 0x90, CHR 0xE4, CHR 0xB8, CHR 0xBB, CHR 0xE6,
      CHR 0x9C, CHR 0xBA, CHR 0x3A, CHR 0x20]"

subsection \<open>Domain names (utils.go)\<close>

text \<open>
  \<^verbatim>\<open>ValidateDomainName\<close> bounds the length and matches the regular expression
  \<^verbatim>\<open>^L(\.L)*$\<close> with \<^verbatim>\<open>L = [a-zA-Z0-9]([a-zA-Z0-9\-]{0,61}[a-zA-Z0-9])?\<close>. A label
  holds no dot, so a string matches exactly when each of the parts between its dots
  matches \<^verbatim>\<open>L\<close>: one alphanumeric byte, or between 2 and 63 bytes that are alphanumeric
  or hyphens and begin and end with an alphanumeric byte.
\<close>

definition isAlnum :: "char \<Rightarrow> bool" where
  "isAlnum c = (let n = (of_char c :: nat)
                in (97 \<le> n \<and> n \<le> 122) \<or> (65 \<le> n \<and> n \<le> 90) \<or> (48 \<le> n \<and> n \<le> 57))"

definition label_ok :: "string \<Rightarrow> bool" where
  "label_ok l =
     (case l of
        [] \<Rightarrow> False
      | c # rest \<Rightarrow>
          isAlnum c \<and>
          (rest = [] \<or>
           (length (butlast rest) \<le> 61
            \<and> list_all (\<lambda>c. isAlnum c \<or> c = CHR ''-'') (butlast rest)
            \<and> isAlnum (last rest))))"

definition ValidateDomainName :: "string \<Rightarrow> bool" where
  "ValidateDomainName domain =
     (if length domain = 0 \<or> length domain > 253 then False
      else list_all label_ok (Split domain (CHR ''.'')))"

definition isValidRealityDomain :: "string \<Rightarrow> bool" where
  "isValidRealityDomain domain = (domain \<noteq> [])"

subsection \<open>Target parser (utils.go, ParseHost)\<close>

definition ParseHost :: "World \<Rightarrow> string \<Rightarrow> string + Host" where
  "ParseHost w hostStr =
     (let hostStr = strings_TrimSpace w hostStr
      in case net_ParseIP w hostStr of
           Some a \<Rightarrow> Inr \<lparr>Host.IP = a, Host.Origin = hostStr, Host.Type = HostTypeIP\<rparr>
         | None \<Rightarrow>
             (case net_ParseCIDR w hostStr of
                Some n \<Rightarrow> Inr \<lparr>Host.IP = [], Host.Origin = hostStr, Host.Type = HostTypeCIDR\<rparr>
              | None \<Rightarrow>
                  if ValidateDomainName hostStr
                  then Inr \<lparr>Host.IP = [], Host.Origin = hostStr, Host.Type = HostTypeDomain\<rparr>
                  else Inl (msg_unparseable @ hostStr)))"

subsection \<open>Side-channel probes (scanner.go)\<close>

definition DetectCloudflareCDN :: "World \<Rightarrow> string \<Rightarrow> bool" where
  "DetectCloudflareCDN w domain =
     (if domain = [] then False
      else case http_Get w (''https://'' @ domain @ ''/cdn-cgi/trace'') of
             None \<Rightarrow> False
           | Some (status, body) \<Rightarrow>
               if status = 200 then
                 (case body of
                    None \<Rightarrow> False
                  | Some bodyStr \<Rightarrow>
                      strings_Contains bodyStr ''fl='' \<or> strings_Contains bodyStr ''h=''
                      \<or> strings_Contains bodyStr ''colo='' \<or> strings_Contains bodyStr ''gateway='')
               else False)"

definition pingDomain :: "World \<Rightarrow> string \<Rightarrow> bool" where
  "pingDomain w domain = exec_ping w domain"

definition CheckDomainConnectivity :: "ScanControl \<Rightarrow> World \<Rightarrow> string \<Rightarrow> bool" where
  "CheckDomainConnectivity sc w domain =
     (if \<not> PingDomain sc then True
      else if domain = [] \<or> net_ParseIP w domain \<noteq> None then False
      else if \<not> ValidateDomainName domain then False
      else pingDomain w domain)"

subsection \<open>The classifier\<close>

text \<open>
  \<^verbatim>\<open>IsRealityFeasible\<close> returns its verdict; the model returns with it the calls of the
  two probing functions that the method makes, in order, each with the argument it got.
\<close>

datatype probe_call = Call_DetectCloudflareCDN string | Call_CheckDomainConnectivity string

fun call_domain :: "probe_call \<Rightarrow> string" where
  "call_domain (Call_DetectCloudflareCDN d) = d"
| "call_domain (Call_CheckDomainConnectivity d) = d"

definition IsRealityFeasible :: "ScanControl \<Rightarrow> World \<Rightarrow> ScanResult \<Rightarrow> bool \<times> probe_call list" where
  "IsRealityFeasible sc w sr =
     (if TLSVersion sr \<noteq> RequiredTLSVersion then (False, [])
      else if ALPN sr \<noteq> RequiredALPN then (False, [])
      else if Curve sr \<noteq> RequiredCurve then (False, [])
      else if CertDomain sr = [] then (False, [])
      else if \<not> isValidRealityDomain (CertDomain sr) then (False, [])
      else if CertIssuer sr = [] then (False, [])
      else if DetectCloudflareCDN w (CertDomain sr)
        then (False, [Call_DetectCloudflareCDN (CertDomain sr)])
      else if PingDomain sc
        then (if \<not> CheckDomainConnectivity sc w (CertDomain sr)
              then (False, [Call_DetectCloudflareCDN (CertDomain sr),
                            Call_CheckDomainConnectivity (CertDomain sr)])
              else (True, [Call_DetectCloudflareCDN (CertDomain sr),
                           Call_CheckDomainConnectivity (CertDomain sr)]))
      else (True, [Call_DetectCloudflareCDN (CertDomain sr)]))"

subsection \<open>The probe (scanner.go, scanSingleIP and ScanTLS)\<close>

definition getTLSVersionString :: "16 word \<Rightarrow> string" where
  "getTLSVersionString version =
     (if version = 0x0301 then ''TLS 1.0''
      else if version = 0x0302 then ''TLS 1.1''
      else if version = 0x0303 then ''TLS 1.2''
      else if version = 0x0304 then ''TLS 1.3''
      else ''Unknown(0x'' @ hex4 version @ '')'')"

definition getCurveString :: "16 word \<Rightarrow> string" where
  "getCurveString cipherSuite = ''X25519''"

definition tlsConfigFor :: "string \<Rightarrow> TLSConfig" where
  "tlsConfigFor origin =
     (let tlsConfig = \<lparr>InsecureSkipVerify = True, NextProtos = [''h2'', ''http/1.1''],
                        CurvePreferences = [X25519], ServerName = origin\<rparr>
      in if ValidateDomainName origin then tlsConfig\<lparr>ServerName := origin\<rparr>
         else tlsConfig\<lparr>ServerName := []\<rparr>)"

text \<open>
  The server name that the handshake sends. Go's \<^verbatim>\<open>crypto/tls\<close> does not put
  \<^verbatim>\<open>Config.ServerName\<close> into the ClientHello as it is, but \<^verbatim>\<open>hostnameInSNI\<close> of
  it: brackets around the name and a zone after the last \<^verbatim>\<open>%\<close> are set aside, a
  name that then parses as an IP address gives the empty server name (no indication is
  sent), and any other name is sent without its trailing dots.
  \<^verbatim>\<open>strings.LastIndex\<close> is \<open>-1\<close> when the byte does not occur.
\<close>

definition LastIndex :: "string \<Rightarrow> char \<Rightarrow> int" where
  "LastIndex s c =
     (if c \<in> set s then int (length s) - 1 - int (length (takeWhile (\<lambda>x. x \<noteq> c) (rev s)))
      else - 1)"

definition hostnameInSNI :: "World \<Rightarrow> string \<Rightarrow> string" where
  "hostnameInSNI w name =
     (let host = name;
          host = (if length host > 0 \<and> hd host = CHR 0x5B \<and> last host = CHR 0x5D
                  then butlast (tl host) else host);
          i = LastIndex host (CHR 0x25);
          host = (if i > 0 then take (nat i) host else host)
      in if net_ParseIP w host \<noteq> None then []
         else rev (dropWhile (\<lambda>c. c = CHR ''.'') (rev name)))"

text \<open>The server name indication of the probe of a target with the given origin.\<close>

definition sentServerName :: "World \<Rightarrow> string \<Rightarrow> string" where
  "sentServerName w origin = hostnameInSNI w (ServerName (tlsConfigFor origin))"

text \<open>The fields read from the connection state after a handshake that succeeded.\<close>

definition fillResult :: "ScanResult \<Rightarrow> ConnectionState \<Rightarrow> int \<Rightarrow> ScanResult" where
  "fillResult result state elapsed =
     (let result = result\<lparr>ResponseTime := elapsed\<rparr>;
          result = result\<lparr>TLSVersion := getTLSVersionString (Version state)\<rparr>;
          result = result\<lparr>ALPN := NegotiatedProtocol state\<rparr>;
          result = result\<lparr>Curve := getCurveString (CipherSuite state)\<rparr>
      in case PeerCertificates state of
           [] \<Rightarrow> result
         | cert # certs \<Rightarrow>
             (let result =
                    (if length (DNSNames cert) > 0
                       then result\<lparr>CertDomain := Join (DNSNames cert) '',''\<rparr>
                     else if SubjectCommonName cert \<noteq> []
                       then result\<lparr>CertDomain := SubjectCommonName cert\<rparr>
                     else result);
                  result = result\<lparr>CertIssuer := IssuerCommonName cert\<rparr>
              in case IssuerOrganization cert of
                   [] \<Rightarrow> result
                 | organization # organizations \<Rightarrow>
                     if CertIssuer result = [] then result\<lparr>CertIssuer := organization\<rparr>
                     else result))"

definition newResult :: "string \<Rightarrow> string \<Rightarrow> int \<Rightarrow> ScanResult" where
  "newResult a origin port =
     \<lparr>IP = a, Origin = origin, Port = port, CertDomain = [], CertIssuer = [],
      TLSVersion = [], ALPN = [], Curve = [], GeoCode = [], Feasible = False,
      ResponseTime = 0, Error = []\<rparr>"

definition scanSingleIP ::
  "Config \<Rightarrow> ScanControl \<Rightarrow> World \<Rightarrow> Geo option \<Rightarrow> ip \<Rightarrow> string \<Rightarrow> ScanResult" where
  "scanSingleIP cfg sc w geo a origin =
     (let result = newResult (ip_String w a) origin (Config.Port cfg);
          result = (case geo of None \<Rightarrow> result | Some g \<Rightarrow> result\<lparr>GeoCode := GetGeo g a\<rparr>);
          address = ip_String w a @ '':'' @ Itoa (Config.Port cfg)
      in case net_DialTimeout w address (Timeout cfg) of
           Some err \<Rightarrow> result\<lparr>Error := msg_tcp_failed @ err\<rparr>
         | None \<Rightarrow>
             (case tls_Handshake w address (tlsConfigFor origin) of
                Inl err \<Rightarrow> result\<lparr>Error := msg_tls_failed @ err\<rparr>
              | Inr state \<Rightarrow>
                  (let result = fillResult result state (time_Since w address)
                   in result\<lparr>Feasible := fst (IsRealityFeasible sc w result)\<rparr>)))"

definition ResolveDomain :: "Config \<Rightarrow> World \<Rightarrow> string \<Rightarrow> string + ip list" where
  "ResolveDomain cfg w domain =
     (case net_LookupIP w domain of
        Inl err \<Rightarrow> Inl (msg_resolve_failed @ err)
      | Inr ips \<Rightarrow>
          (let result = filter (\<lambda>a. IPv6 cfg \<or> To4 a \<noteq> None) ips
           in if length result = 0 then Inl msg_no_valid_ip else Inr result))"

definition ScanTLS :: "Config \<Rightarrow> ScanControl \<Rightarrow> World \<Rightarrow> Geo option \<Rightarrow> Host \<Rightarrow> ScanResult list" where
  "ScanTLS cfg sc w geo host =
     (if Host.Type host = HostTypeIP
        then map (\<lambda>a. scanSingleIP cfg sc w geo a (Host.Origin host)) [Host.IP host]
      else if Host.Type host = HostTypeDomain
        then (case ResolveDomain cfg w (Host.Origin host) of
                Inl err \<Rightarrow> [(newResult [] (Host.Origin host) (Config.Port cfg))
                                \<lparr>Error := msg_resolve_failed @ err\<rparr>]
              | Inr ips \<Rightarrow> map (\<lambda>a. scanSingleIP cfg sc w geo a (Host.Origin host)) ips)
      else [(newResult [] (Host.Origin host) (Config.Port cfg))
              \<lparr>Error := msg_unsupported_type\<rparr>])"

section \<open>CSV output (output.go)\<close>

text \<open>
  Go's \<^verbatim>\<open>csv.Writer\<close> with its default settings: a field is quoted when it is
  \<^verbatim>\<open>\.\<close>, holds a line feed, a carriage return, a double quote or a comma, or
  begins with a white-space rune; inside the quotes a double quote is doubled; the
  fields are separated by commas and the record ends with a line feed. The white-space
  runes are listed by their UTF-8 encodings.
\<close>

definition space_runes :: "string list" where
  "space_runes =
     [[CHR 0x09], [CHR 0x0A], [CHR 0x0B], [CHR 0x0C], [CHR 0x0D], [CHR 0x20],
      [CHR 0xC2, CHR 0x85], [CHR 0xC2, CHR 0xA0], [CHR 0xE1, CHR 0x9A, CHR 0x80],
      [CHR 0xE2, CHR 0x80, CHR 0x80], [CHR 0xE2, CHR 0x80, CHR 0x81],
      [CHR 0xE2, CHR 0x80, CHR 0x82], [CHR 0xE2, CHR 0x80, CHR 0x83],
      [CHR 0xE2, CHR 0x80, CHR 0x84], [CHR 0xE2, CHR 0x80, CHR 0x85],
      [CHR 0xE2, CHR 0x80, CHR 0x86], [CHR 0xE2, CHR 0x80, CHR 0x87],
      [CHR 0xE2, CHR 0x80, CHR 0x88], [CHR 0xE2, CHR 0x80, CHR 0x89],
      [CHR 0xE2, CHR 0x80, CHR 0x8A], [CHR 0xE2, CHR 0x80, CHR 0xA8],
      [CHR 0xE2, CHR 0x80, CHR 0xA9], [CHR 0xE2, CHR 0x80, CHR 0xAF],
      [CHR 0xE2, CHR 0x81, CHR 0x9F], [CHR 0xE3, CHR 0x80, CHR 0x80]]"

definition special :: "char \<Rightarrow> bool" where
  "special c = (c = CHR 0x0A \<or> c = CHR 0x0D \<or> c = CHR 0x22 \<or> c = CHR '','')"

definition fieldNeedsQuotes :: "string \<Rightarrow> bool" where
  "fieldNeedsQuotes field =
     (if field = [] then False
      else if field = [CHR 0x5C, CHR ''.''] then True
      else if list_ex special field then True
      else list_ex (HasPrefix field) space_runes)"

definition quoted :: "string \<Rightarrow> string" where
  "quoted field =
     CHR 0x22 # concat (map (\<lambda>c. if c = CHR 0x22 then [CHR 0x22, CHR 0x22] else [c]) field)
       @ [CHR 0x22]"

definition csv_Write :: "string list \<Rightarrow> string" where
  "csv_Write record =
     Join (map (\<lambda>field. if fieldNeedsQuotes field then quoted field else field) record) '',''
       @ [CHR 0x0A]"

text \<open>
  The output file is its contents. The file system and the clock are the sink's part of
  the world: whether the file can be created, whether the write of the \<open>n\<close>-th result
  fails (with its message), and the formatted local time at the \<open>n\<close>-th result.
\<close>

type_synonym CSVWriter = string

record SinkWorld =
  os_Create :: "string option"
  write_error :: "int \<Rightarrow> string option"
  time_Now :: "int \<Rightarrow> string"

definition headers :: "string list" where
  "headers = [''IP'', ''ORIGIN'', ''PORT'', ''CERT_DOMAIN'', ''CERT_ISSUER'', ''TLS_VERSION'',
              ''ALPN'', ''CURVE'', ''GEO_CODE'', ''FEASIBLE'', ''RESPONSE_TIME_MS'', ''ERROR'',
              ''SCAN_TIME'']"

definition msg_create_failed :: string where
  "msg_create_failed =
     [CHR 0xE5, CHR 0x88, CHR 0x9B, CHR 0xE5, CHR 0xBB, CHR 0xBA, CHR 0xE8, CHR 0xBE,
      CHR 0x93, CHR 0xE5, CHR 0x87, CHR 0xBA, CHR 0xE6, CHR 0x96, CHR 0x87, CHR 0xE4,
      CHR 0xBB, CHR 0xB6, CHR 0xE5, CHR 0xA4, CHR 0xB1, CHR 0xE8, CHR 0xB4, CHR 0xA5,
      CHR 0x3A, CHR 0x20]"

definition msg_write_failed :: string where
  "msg_write_failed =
     [CHR 0xE5, CHR 0x86, CHR 0x99, CHR 0xE5, CHR 0x85, CHR 0xA5, CHR 0x43, CHR 0x53,
      CHR 0x56, CHR 0xE8, CHR 0xAE, CHR 0xB0, CHR 0xE5, CHR 0xBD, CHR 0x95, CHR 0xE5,
      CHR 0xA4, CHR 0xB1, CHR 0xE8, CHR 0xB4, CHR 0xA5, CHR 0x3A, CHR 0x20]"

definition NewCSVWriter :: "SinkWorld \<Rightarrow> string + CSVWriter" where
  "NewCSVWriter sw =
     (case os_Create sw of
        Some err \<Rightarrow> Inl (msg_create_failed @ err)
      | None \<Rightarrow> Inr (csv_Write headers))"

definition FormatBool :: "bool \<Rightarrow> string" where
  "FormatBool b = (if b then ''true'' else ''false'')"

definition record_of :: "ScanResult \<Rightarrow> string \<Rightarrow> string list" where
  "record_of result now =
     [IP result, Origin result, Itoa (Port result), CertDomain result, CertIssuer result,
      TLSVersion result, ALPN result, Curve result, GeoCode result,
      FormatBool (Feasible result), Itoa (ResponseTime result), Error result, now]"

definition WriteResult :: "SinkWorld \<Rightarrow> int \<Rightarrow> CSVWriter \<Rightarrow> ScanResult \<Rightarrow> string + CSVWriter" where
  "WriteResult sw n cw result =
     (let record = record_of result (time_Now sw n)
      in case write_error sw n of
           Some err \<Rightarrow> Inl (msg_write_failed @ err)
         | None \<Rightarrow> Inr (cw @ csv_Write record))"

section \<open>Result sink (output.go, ProcessResults)\<close>

text \<open>
  The sink receives the results in the order of the channel. The counters and the file
  are the state; the lines printed on the console are not modelled.
\<close>

record ResultProcessor =
  csvWriter :: CSVWriter
  totalCount :: int
  feasibleCount :: int
  errorCount :: int

definition NewResultProcessorWithProgress :: "SinkWorld \<Rightarrow> string + ResultProcessor" where
  "NewResultProcessorWithProgress sw =
     (case NewCSVWriter sw of
        Inl err \<Rightarrow> Inl err
      | Inr cw \<Rightarrow> Inr \<lparr>csvWriter = cw, totalCount = 0, feasibleCount = 0, errorCount = 0\<rparr>)"

fun ProcessResults :: "ScanControl \<Rightarrow> SinkWorld \<Rightarrow> ResultProcessor \<Rightarrow> ScanResult list \<Rightarrow> ResultProcessor" where
  "ProcessResults sc sw rp [] = rp"
| "ProcessResults sc sw rp (result # rest) =
     (let rp = rp\<lparr>totalCount := totalCount rp + 1\<rparr>
      in case WriteResult sw (totalCount rp) (csvWriter rp) result of
           Inl err \<Rightarrow> ProcessResults sc sw rp rest
         | Inr cw \<Rightarrow>
             (let rp = rp\<lparr>csvWriter := cw\<rparr>
              in if Error result \<noteq> []
                   then ProcessResults sc sw (rp\<lparr>errorCount := errorCount rp + 1\<rparr>) rest
                 else if Feasible result
                   then (let rp = rp\<lparr>feasibleCount := feasibleCount rp + 1\<rparr>
                         in if StopOnMax sc \<and> feasibleCount rp \<ge> MaxResults sc then rp
                            else ProcessResults sc sw rp rest)
                 else ProcessResults sc sw rp rest))"

section \<open>Result loader (main.go, loadFeasibleResults)\<close>

text \<open>
  \<^verbatim>\<open>bufio.Scanner\<close> with its default line splitting: the lines are the stretches
  between line feeds, each without one trailing carriage return; a last line without a
  line feed counts when it is not empty; scanning stops at a line that does not fit the
  64 KiB buffer together with its line feed.
\<close>

definition MaxScanTokenSize :: nat where "MaxScanTokenSize = 65536"

definition dropCR :: "string \<Rightarrow> string" where
  "dropCR l = (if l \<noteq> [] \<and> last l = CHR 0x0D then butlast l else l)"

function scan_lines :: "string \<Rightarrow> string list" where
  "scan_lines s =
     (if s = [] then []
      else let l = takeWhile (\<lambda>c. c \<noteq> CHR 0x0A) s;
               rest = dropWhile (\<lambda>c. c \<noteq> CHR 0x0A) s
           in if length l \<ge> MaxScanTokenSize then []
              else dropCR l # scan_lines (tl rest))"
  by pat_completeness auto
termination
proof (relation "measure length", goal_cases)
  case 1
  show ?case by simp
next
  case (2 s l rest)
  have "length (dropWhile (\<lambda>c. c \<noteq> CHR 0x0A) s) \<le> length s"
    by (rule length_dropWhile_le)
  with 2 show ?case by (cases s) auto
qed

declare scan_lines.simps [simp del]

definition loadFeasibleResults :: "string option \<Rightarrow> string + string list list" where
  "loadFeasibleResults file =
     (case file of
        None \<Rightarrow> Inl ''open''
      | Some contents \<Rightarrow>
          Inr (filter (\<lambda>parts. length parts \<ge> 10 \<and> parts ! 9 = ''true'')
                 (map (\<lambda>line. Split line (CHR '','')) (tl (scan_lines contents)))))"

section \<open>The invariant of emitted results\<close>

text \<open>The invariant of the data model: a feasible result has no error and passed the local checks.\<close>

definition result_ok :: "ScanResult \<Rightarrow> bool" where
  "result_ok r \<longleftrightarrow>
     (if Feasible r
      then Error r = [] \<and> TLSVersion r = ''TLS 1.3'' \<and> ALPN r = ''h2'' \<and> Curve r = ''X25519''
           \<and> CertDomain r \<noteq> [] \<and> CertIssuer r \<noteq> []
      else True)"


section \<open>Reference descriptions of the seed enumerator and of the sink\<close>

text \<open>
  The seed enumerator as the specification words it: the lower cursor after \<open>k\<close> downward
  steps from the seed value \<open>S\<close> (below zero \<^verbatim>\<open>NextIP\<close> returns the magnitude, so the
  cursor then alternates between 1 and 0), the value of the candidate of loop iteration
  \<open>m\<close>, the address of a given width and value, and the iteration at which the upward
  step would leave the width.
\<close>

definition low_cursor :: "int \<Rightarrow> int \<Rightarrow> int" where
  "low_cursor S k = (if k \<le> S then S - k else (k - S) mod 2)"

definition candidate_value :: "int \<Rightarrow> int \<Rightarrow> int" where
  "candidate_value S m = (if even m then low_cursor S (m div 2 + 1) else S + (m div 2 + 1))"

definition addr_of :: "nat \<Rightarrow> int \<Rightarrow> ip" where
  "addr_of w v = replicate (w - length (Bytes v)) 0 @ Bytes v"

definition crash_at :: "nat \<Rightarrow> int \<Rightarrow> int" where
  "crash_at w S = 2 * (256 ^ w - 1 - S) + 1"

text \<open>
  The sink as the specification words it: the results up to and including the one that
  brings the number of feasible results to the quota \<open>m\<close> (all of them when there are
  fewer), the records that the sink hands to the CSV writer, the \<open>n\<close>-th result being
  stamped with the time of its write, and the bytes these records add to the file.
\<close>

fun upto_quota :: "nat \<Rightarrow> ScanResult list \<Rightarrow> ScanResult list" where
  "upto_quota m [] = []"
| "upto_quota m (r # rs) =
     (if Feasible r then (if m \<le> 1 then [r] else r # upto_quota (m - 1) rs)
      else r # upto_quota m rs)"

fun stamped :: "SinkWorld \<Rightarrow> int \<Rightarrow> ScanResult list \<Rightarrow> string list list" where
  "stamped sw n [] = []"
| "stamped sw n (r # rs) = record_of r (time_Now sw (n + 1)) # stamped sw (n + 1) rs"

definition written :: "SinkWorld \<Rightarrow> int \<Rightarrow> ScanResult list \<Rightarrow> string" where
  "written sw n rs = concat (map csv_Write (stamped sw n rs))"

section \<open>Example inputs\<close>

definition example_net :: IPNet where
  "example_net = \<lparr>NetIP = [192, 0, 2, 252], Mask = [255, 255, 255, 254]\<rparr>"

definition example_ParseCIDR :: "string \<Rightarrow> IPNet option" where
  "example_ParseCIDR s = (if s = ''192.0.2.252/31'' then Some example_net else None)"

definition example_seed :: ip where
  "example_seed = replicate 10 0 @ [255, 255, 192, 0, 2, 50]"

definition example_ParseIP :: "string \<Rightarrow> ip option" where
  "example_ParseIP s = (if s = ''192.0.2.50'' then Some example_seed
                        else if s = ''::'' then Some (replicate 16 0)
                        else if s = ''ffff:ffff:ffff:ffff:ffff:ffff:ffff:ffff''
                          then Some (replicate 16 255)
                        else None)"

definition example_cert :: Certificate where
  "example_cert = \<lparr>DNSNames = [''good.example.test''], SubjectCommonName = ''good.example.test'',
                    IssuerCommonName = ''Test CA'', IssuerOrganization = []\<rparr>"

definition example_cert2 :: Certificate where
  "example_cert2 = \<lparr>DNSNames = [''cf.example.test'', ''www.example.test''],
                     SubjectCommonName = ''cf.example.test'',
                     IssuerCommonName = ''Test CA'', IssuerOrganization = []\<rparr>"

definition example_state :: "Certificate \<Rightarrow> ConnectionState" where
  "example_state cert = \<lparr>Version = 0x0304, NegotiatedProtocol = ''h2'', CipherSuite = 0x1301,
                          PeerCertificates = [cert]\<rparr>"

definition example_world :: World where
  "example_world =
     \<lparr>net_LookupIP = (\<lambda>d. if d = ''good.example.test'' then Inr [[192, 0, 2, 10]]
                           else Inl ''no such host''),
      net_DialTimeout = (\<lambda>address t. if address = ''192.0.2.10:443'' \<or> address = ''192.0.2.20:443''
                                       then None else Some ''connection refused''),
      tls_Handshake = (\<lambda>address c.
                         if address = ''192.0.2.10:443'' then Inr (example_state example_cert)
                         else if address = ''192.0.2.20:443'' then Inr (example_state example_cert2)
                         else Inl ''handshake failure''),
      http_Get = (\<lambda>url. if url = ''https://cf.example.test/cdn-cgi/trace''
                         then Some (200, Some ''fl=1 colo=SJC'') else None),
      exec_ping = (\<lambda>d. d = ''good.example.test''),
      time_Since = (\<lambda>address. 42),
      net_ParseIP = (\<lambda>s. if s = ''192.0.2.10'' then Some (replicate 10 0 @ [255, 255, 192, 0, 2, 10])
                          else if s = ''192.0.2.20'' then Some (replicate 10 0 @ [255, 255, 192, 0, 2, 20])
                          else None),
      net_ParseCIDR = (\<lambda>s. None),
      ip_String = (\<lambda>a. if To4 a = Some [192, 0, 2, 10] then ''192.0.2.10''
                        else if To4 a = Some [192, 0, 2, 20] then ''192.0.2.20'' else ''::''),
      strings_TrimSpace = (\<lambda>s. s)\<rparr>"

definition example_config :: Config where
  "example_config = \<lparr>Config.Port = 443, Thread = 2, Timeout = 10, Output = ''out.csv'',
                      Verbose = False, IPv6 = False\<rparr>"

definition example_control :: ScanControl where
  "example_control = \<lparr>MaxResults = 0, StopOnMax = False, PingDomain = True\<rparr>"

definition example_host :: Host where
  "example_host = \<lparr>Host.IP = [], Host.Origin = ''good.example.test'', Host.Type = HostTypeDomain\<rparr>"

definition example_result :: ScanResult where
  "example_result =
     \<lparr>IP = ''192.0.2.10'', Origin = ''good.example.test'', Port = 443,
      CertDomain = ''good.example.test'', CertIssuer = ''Test CA'', TLSVersion = ''TLS 1.3'',
      ALPN = ''h2'', Curve = ''X25519'', GeoCode = [], Feasible = True, ResponseTime = 42,
      Error = []\<rparr>"

definition example_sink :: SinkWorld where
  "example_sink = \<lparr>os_Create = None, write_error = (\<lambda>n. None),
                    time_Now = (\<lambda>n. ''2024-01-01 00:00:00'')\<rparr>"

definition example_quota :: ScanControl where
  "example_quota = \<lparr>MaxResults = 2, StopOnMax = True, PingDomain = False\<rparr>"

definition example_failure :: ScanResult where
  "example_failure = (newResult ''192.0.2.7'' ''192.0.2.0/24'' 443)\<lparr>Error := msg_tls_failed @ ''EOF''\<rparr>"

definition example_stream :: "ScanResult list" where
  "example_stream = [example_failure, example_result, example_failure, example_result, example_result]"

definition example_processor :: ResultProcessor where
  "example_processor = \<lparr>csvWriter = csv_Write headers, totalCount = 0, feasibleCount = 0,
                         errorCount = 0\<rparr>"

definition example_multi :: ScanResult where
  "example_multi = example_result\<lparr>CertDomain := ''cf.example.test,www.example.test''\<rparr>"

section \<open>Properties of the IP arithmetic\<close>

lemma SetBytes_Nil: "SetBytes [] = 0"
  by (simp add: SetBytes_def)

lemma SetBytes_snoc: "SetBytes (bs @ [b]) = SetBytes bs * 256 + uint b"
  by (simp add: SetBytes_def)

lemma SetBytes_nonneg: "0 \<le> SetBytes bs"
  by (induction bs rule: rev_induct) (simp_all add: SetBytes_Nil SetBytes_snoc)

lemma uint_byte_bound: "uint (b :: byte) < 256"
  using uint_bounded [of b] by simp

lemma SetBytes_bound: "SetBytes bs < 256 ^ length bs"
proof (induction bs rule: rev_induct)
  case Nil
  show ?case by (simp add: SetBytes_Nil)
next
  case (snoc b bs)
  have "SetBytes bs + 1 \<le> 256 ^ length bs" using snoc by simp
  then have "(SetBytes bs + 1) * 256 \<le> 256 ^ length bs * 256" by simp
  then show ?case using uint_byte_bound [of b] by (simp add: SetBytes_snoc algebra_simps)
qed

lemma SetBytes_append: "SetBytes (xs @ ys) = SetBytes xs * 256 ^ length ys + SetBytes ys"
  by (induction ys rule: rev_induct)
     (simp_all add: SetBytes_Nil SetBytes_snoc append_assoc [symmetric] algebra_simps del: append_assoc)

lemma SetBytes_replicate0: "SetBytes (replicate k 0) = 0"
proof (induction k)
  case 0
  show ?case by (simp add: SetBytes_Nil)
next
  case (Suc k)
  have "SetBytes ([0] @ replicate k 0) = 0"
    unfolding SetBytes_append using Suc by (simp add: SetBytes_def)
  then show ?case by simp
qed

lemma SetBytes_pad: "SetBytes (replicate k 0 @ bs) = SetBytes bs"
  by (simp add: SetBytes_append SetBytes_replicate0)

lemma SetBytes_Bytes: "SetBytes (Bytes x) = \<bar>x\<bar>"
proof (induction x rule: Bytes.induct)
  case (1 x)
  show ?case
  proof (cases "x = 0")
    case True
    then show ?thesis by (simp add: Bytes.simps SetBytes_Nil)
  next
    case False
    have "uint (word_of_int (\<bar>x\<bar> mod 256) :: byte) = \<bar>x\<bar> mod 256"
      by (simp add: uint_word_of_int)
    then show ?thesis using False 1
      by (subst Bytes.simps) (simp add: SetBytes_snoc)
  qed
qed

lemma length_Bytes_le: "length (Bytes x) \<le> n \<longleftrightarrow> \<bar>x\<bar> < 256 ^ n"
proof (induction x arbitrary: n rule: Bytes.induct)
  case (1 x)
  show ?case
  proof (cases "x = 0")
    case True
    then show ?thesis by (simp add: Bytes.simps)
  next
    case False
    have len: "length (Bytes x) = Suc (length (Bytes (\<bar>x\<bar> div 256)))"
      using False by (subst Bytes.simps) simp
    show ?thesis
    proof (cases n)
      case 0
      then show ?thesis using False len by simp
    next
      case (Suc m)
      have "length (Bytes (\<bar>x\<bar> div 256)) \<le> m \<longleftrightarrow> \<bar>\<bar>x\<bar> div 256\<bar> < 256 ^ m"
        using 1 [OF False] .
      moreover have "\<bar>\<bar>x\<bar> div 256\<bar> = \<bar>x\<bar> div 256" by simp
      moreover have "a div 256 < b \<longleftrightarrow> a < b * 256" for a b :: int
        by linarith
      then have "\<bar>x\<bar> div 256 < 256 ^ m \<longleftrightarrow> \<bar>x\<bar> < 256 ^ m * 256" .
      ultimately show ?thesis using Suc len by (simp add: mult.commute)
    qed
  qed
qed

lemma SetBytes_inj: "length xs = length ys \<Longrightarrow> SetBytes xs = SetBytes ys \<Longrightarrow> xs = ys"
proof (induction xs arbitrary: ys rule: rev_induct)
  case Nil
  then show ?case by simp
next
  case (snoc b bs)
  then obtain c cs where ys: "ys = cs @ [c]"
    by (cases ys rule: rev_cases) auto
  with snoc.prems have len: "length bs = length cs"
    and eq: "SetBytes bs * 256 + uint b = SetBytes cs * 256 + uint c"
    by (simp_all add: SetBytes_snoc)
  have "(SetBytes bs * 256 + uint b) mod 256 = uint b"
    using uint_byte_bound [of b] by simp
  moreover have "(SetBytes cs * 256 + uint c) mod 256 = uint c"
    using uint_byte_bound [of c] by simp
  ultimately have "uint b = uint c" using eq by simp
  then have bc: "b = c" by (rule word_uint_eqI)
  with eq have "SetBytes bs = SetBytes cs" by simp
  with snoc.IH len have "bs = cs" by blast
  with bc ys show ?case by simp
qed


lemma NextIP_unfold:
  "NextIP a inc =
     (if width a < length (Bytes (moved a inc)) then Inl Panic
      else Inr (replicate (width a - length (Bytes (moved a inc))) 0 @ Bytes (moved a inc)))"
  by (auto simp: NextIP_def make_bytes_def width_def moved_def Let_def nat_diff_distrib)

lemma NextIP_Inl_iff: "NextIP a inc = Inl e \<longleftrightarrow> 256 ^ width a \<le> \<bar>moved a inc\<bar>"
  using length_Bytes_le [of "moved a inc" "width a"]
  by (cases e) (auto simp: NextIP_unfold)

lemma NextIP_Inr_iff:
  "NextIP a inc = Inr a' \<longleftrightarrow>
     \<bar>moved a inc\<bar> < 256 ^ width a \<and> length a' = width a \<and> SetBytes a' = \<bar>moved a inc\<bar>"
proof
  assume "NextIP a inc = Inr a'"
  then have le: "length (Bytes (moved a inc)) \<le> width a"
    and a': "a' = replicate (width a - length (Bytes (moved a inc))) 0 @ Bytes (moved a inc)"
    by (auto simp: NextIP_unfold split: if_splits)
  from le have "\<bar>moved a inc\<bar> < 256 ^ width a" by (simp add: length_Bytes_le)
  moreover from le a' have "length a' = width a" by simp
  moreover from a' have "SetBytes a' = \<bar>moved a inc\<bar>" by (simp add: SetBytes_pad SetBytes_Bytes)
  ultimately show "\<bar>moved a inc\<bar> < 256 ^ width a \<and> length a' = width a \<and> SetBytes a' = \<bar>moved a inc\<bar>"
    by simp
next
  assume r: "\<bar>moved a inc\<bar> < 256 ^ width a \<and> length a' = width a \<and> SetBytes a' = \<bar>moved a inc\<bar>"
  then have le: "length (Bytes (moved a inc)) \<le> width a" by (simp add: length_Bytes_le)
  let ?b = "replicate (width a - length (Bytes (moved a inc))) 0 @ Bytes (moved a inc)"
  have "length ?b = length a'" using le r by simp
  moreover have "SetBytes ?b = SetBytes a'" using r by (simp add: SetBytes_pad SetBytes_Bytes)
  ultimately have "?b = a'" by (rule SetBytes_inj)
  then show "NextIP a inc = Inr a'" using le by (simp add: NextIP_unfold)
qed

lemma width_NextIP: "NextIP a inc = Inr a' \<Longrightarrow> width a' = width a"
  by (auto simp: NextIP_Inr_iff width_def)

text \<open>
  Claim C6. For an address of 4 or 16 bytes whose increment does not panic, decrementing
  the incremented address gives back the original bytes, hence also the original width.
\<close>

theorem NextIP_up_then_down:
  assumes "length a = 4 \<or> length a = 16" and "NextIP a True = Inr a'"
  shows "NextIP a' False = Inr a"
proof -
  from assms(1) have w: "width a = length a" by (auto simp: width_def)
  from assms(2) have a': "length a' = width a" "SetBytes a' = SetBytes a + 1"
    using SetBytes_nonneg [of a] by (auto simp: NextIP_Inr_iff moved_def)
  then have "width a' = width a" using w assms(1) by (auto simp: width_def)
  moreover have "moved a' False = SetBytes a" using a' by (simp add: moved_def)
  ultimately show ?thesis
    using w SetBytes_nonneg [of a] SetBytes_bound [of a] by (simp add: NextIP_Inr_iff)
qed

theorem NextIP_up_then_down_witness:
  "NextIP [192, 0, 2, 255] True = Inr [192, 0, 3, 0] \<and> NextIP [192, 0, 3, 0] False = Inr [192, 0, 2, 255]"
proof -
  have up: "NextIP [192, 0, 2, 255] True = Inr [192, 0, 3, 0]" by code_simp
  have "length [192, 0, 2, 255 :: byte] = 4 \<or> length [192, 0, 2, 255 :: byte] = 16" by simp
  from NextIP_up_then_down [OF this up] up show ?thesis by simp
qed

text \<open>
  Claim C10. \<^verbatim>\<open>NextIP\<close> panics on incrementing the all-ones address of either width
  (the integer needs one byte more than the width, so the pad length is negative), and
  decrementing the all-zero address yields the magnitude of \<open>-1\<close>, the address ending
  in 1, rather than wrapping around.
\<close>

theorem NextIP_boundary:
  "NextIP [255, 255, 255, 255] True = Inl Panic
   \<and> NextIP (replicate 16 255) True = Inl Panic
   \<and> NextIP [0, 0, 0, 0] False = Inr [0, 0, 0, 1]
   \<and> NextIP (replicate 16 0) False = Inr (replicate 15 0 @ [1])"
  by code_simp


section \<open>Properties of the CIDR enumerator\<close>

lemma NextIP_up_value: "NextIP a True = Inr a' \<Longrightarrow> SetBytes a' = SetBytes a + 1"
  using SetBytes_nonneg [of a] by (auto simp: NextIP_Inr_iff moved_def)

lemma cidr_loop_sound:
  "cidr_loop ipNet cidr a count = (hs, r) \<Longrightarrow>
     (hs = [] \<or> int (length hs) + count \<le> maxHosts) \<and>
     list_all (\<lambda>h. Contains ipNet (Host.IP h) \<and> Host.Origin h = cidr \<and> Host.Type h = HostTypeIP) hs \<and>
     map (\<lambda>h. SetBytes (Host.IP h)) hs = map (\<lambda>i. SetBytes a + int i) [0..<length hs] \<and>
     (hs = [] \<or> Host.IP (hd hs) = a)"
proof (induction ipNet cidr a count arbitrary: hs r rule: cidr_loop.induct)
  case (1 ipNet cidr a count)
  show ?case
  proof (cases "Contains ipNet a \<and> count < maxHosts")
    case False
    with "1.prems" have "hs = []"
      by (subst (asm) cidr_loop.simps) (auto split: if_splits)
    then show ?thesis by simp
  next
    case True
    let ?h = "\<lparr>Host.IP = a, Host.Origin = cidr, Host.Type = HostTypeIP\<rparr>"
    show ?thesis
    proof (cases "NextIP a True")
      case (Inl e)
      with True "1.prems" have "hs = [?h]"
        by (subst (asm) cidr_loop.simps) (auto simp: Let_def)
      with True show ?thesis by simp
    next
      case (Inr a')
      obtain hs' r' where rec: "cidr_loop ipNet cidr a' (count + 1) = (hs', r')"
        by (cases "cidr_loop ipNet cidr a' (count + 1)")
      with True Inr "1.prems" have hs: "hs = ?h # hs'"
        by (subst (asm) cidr_loop.simps) (auto simp: Let_def)
      from True Inr have IH:
        "(hs' = [] \<or> int (length hs') + (count + 1) \<le> maxHosts) \<and>
         list_all (\<lambda>h. Contains ipNet (Host.IP h) \<and> Host.Origin h = cidr \<and> Host.Type h = HostTypeIP) hs' \<and>
         map (\<lambda>h. SetBytes (Host.IP h)) hs' = map (\<lambda>i. SetBytes a' + int i) [0..<length hs'] \<and>
         (hs' = [] \<or> Host.IP (hd hs') = a')"
        using "1.IH" [OF _ _ refl Inr rec] by simp
      have "map (\<lambda>i. SetBytes a + int i) [0..<Suc (length hs')]
            = SetBytes a # map (\<lambda>i. SetBytes a' + int i) [0..<length hs']"
        using NextIP_up_value [OF Inr] by (simp add: map_upt_Suc del: upt_Suc)
      with IH True hs show ?thesis by (auto simp del: upt_Suc)
    qed
  qed
qed

lemma ascending_sorted: "sorted_wrt (<) (map (\<lambda>i. (x::int) + int i) [0..<n])"
  by (simp add: sorted_wrt_map sorted_wrt_iff_nth_less del: upt_Suc)


lemma IterateCIDR_example:
  "IterateCIDR example_ParseCIDR ''192.0.2.252/31''
     = ([\<lparr>Host.IP = [192, 0, 2, 252], Host.Origin = ''192.0.2.252/31'', Host.Type = HostTypeIP\<rparr>,
         \<lparr>Host.IP = [192, 0, 2, 253], Host.Origin = ''192.0.2.252/31'', Host.Type = HostTypeIP\<rparr>], Closed)"
  by code_simp

text \<open>
  Claim C4. For a CIDR string that parses to the network \<open>ipNet\<close>, the enumerator sends
  at most 65536 hosts; every host's address is contained in the network and every host
  carries the CIDR string as its origin; the addresses, read as big-endian integers, are
  the network address, the network address plus one, and so on, hence strictly ascending.
\<close>

theorem IterateCIDR_emits:
  assumes "ParseCIDR cidr = Some ipNet" and "IterateCIDR ParseCIDR cidr = (hs, r)"
  shows "length hs \<le> 65536
     \<and> list_all (\<lambda>h. Contains ipNet (Host.IP h) \<and> Host.Origin h = cidr) hs
     \<and> map (\<lambda>h. SetBytes (Host.IP h)) hs = map (\<lambda>i. SetBytes (NetIP ipNet) + int i) [0..<length hs]
     \<and> sorted_wrt (\<lambda>h h'. SetBytes (Host.IP h) < SetBytes (Host.IP h')) hs
     \<and> (hs = [] \<or> Host.IP (hd hs) = NetIP ipNet)"
proof -
  from assms have loop: "cidr_loop ipNet cidr (NetIP ipNet) 0 = (hs, r)"
    by (simp add: IterateCIDR_def)
  note s = cidr_loop_sound [OF loop]
  from s have len: "length hs \<le> 65536" by (auto simp: maxHosts_def)
  from s have inside: "list_all (\<lambda>h. Contains ipNet (Host.IP h) \<and> Host.Origin h = cidr) hs"
    by (auto simp: list_all_iff)
  from s have vals: "map (\<lambda>h. SetBytes (Host.IP h)) hs
      = map (\<lambda>i. SetBytes (NetIP ipNet) + int i) [0..<length hs]" by blast
  have "sorted_wrt (<) (map (\<lambda>h. SetBytes (Host.IP h)) hs)"
    unfolding vals by (rule ascending_sorted)
  then have asc: "sorted_wrt (\<lambda>h h'. SetBytes (Host.IP h) < SetBytes (Host.IP h')) hs"
    by (simp add: sorted_wrt_map)
  from s have "hs = [] \<or> Host.IP (hd hs) = NetIP ipNet" by blast
  with len inside vals asc show ?thesis by blast
qed

theorem IterateCIDR_emits_witness:
  "example_ParseCIDR ''192.0.2.252/31'' = Some example_net
   \<and> IterateCIDR example_ParseCIDR ''192.0.2.252/31''
     = ([\<lparr>Host.IP = [192, 0, 2, 252], Host.Origin = ''192.0.2.252/31'', Host.Type = HostTypeIP\<rparr>,
         \<lparr>Host.IP = [192, 0, 2, 253], Host.Origin = ''192.0.2.252/31'', Host.Type = HostTypeIP\<rparr>], Closed)
   \<and> list_all (\<lambda>h. Contains example_net (Host.IP h) \<and> Host.Origin h = ''192.0.2.252/31'')
        [\<lparr>Host.IP = [192, 0, 2, 252], Host.Origin = ''192.0.2.252/31'', Host.Type = HostTypeIP\<rparr>,
         \<lparr>Host.IP = [192, 0, 2, 253], Host.Origin = ''192.0.2.252/31'', Host.Type = HostTypeIP\<rparr>]
   \<and> sorted_wrt (\<lambda>h h'. SetBytes (Host.IP h) < SetBytes (Host.IP h'))
        [\<lparr>Host.IP = [192, 0, 2, 252], Host.Origin = ''192.0.2.252/31'', Host.Type = HostTypeIP\<rparr>,
         \<lparr>Host.IP = [192, 0, 2, 253], Host.Origin = ''192.0.2.252/31'', Host.Type = HostTypeIP\<rparr>]"
proof -
  have p: "example_ParseCIDR ''192.0.2.252/31'' = Some example_net"
    by (simp add: example_ParseCIDR_def)
  from IterateCIDR_emits [OF p IterateCIDR_example] p IterateCIDR_example show ?thesis by blast
qed

section \<open>Properties of the seed enumerator\<close>

lemma length_addr_of: "0 \<le> v \<Longrightarrow> v < 256 ^ w \<Longrightarrow> length (addr_of w v) = w"
  using length_Bytes_le [of v w] by (simp add: addr_of_def)

lemma SetBytes_addr_of: "0 \<le> v \<Longrightarrow> SetBytes (addr_of w v) = v"
  by (simp add: addr_of_def SetBytes_pad SetBytes_Bytes)

lemma addr_of_unique:
  assumes "length a = w" and "SetBytes a = v"
  shows "a = addr_of w v"
proof -
  have v: "0 \<le> v" "v < 256 ^ w"
    using assms SetBytes_nonneg [of a] SetBytes_bound [of a] by auto
  show ?thesis
    by (rule SetBytes_inj) (simp_all add: assms length_addr_of [OF v] SetBytes_addr_of [OF v(1)])
qed

lemma low_cursor_step:
  assumes "0 \<le> S" and "0 \<le> k"
  shows "\<bar>low_cursor S k - 1\<bar> = low_cursor S (k + 1)"
proof -
  consider "k < S" | "k = S" | "S < k" by linarith
  then show ?thesis
  proof cases
    case 1
    then show ?thesis by (simp add: low_cursor_def)
  next
    case 2
    then show ?thesis by (simp add: low_cursor_def)
  next
    case 3
    then have "low_cursor S k = (k - S) mod 2" "low_cursor S (k + 1) = (k + 1 - S) mod 2"
      by (simp_all add: low_cursor_def)
    then show ?thesis by presburger
  qed
qed

lemma low_cursor_bound:
  assumes "0 \<le> S" and "S < 256 ^ w" and "0 < w" and "0 \<le> k"
  shows "0 \<le> low_cursor S k \<and> low_cursor S k < 256 ^ w"
proof (cases "k \<le> S")
  case True
  then show ?thesis using assms by (auto simp: low_cursor_def)
next
  case False
  have "(2::int) \<le> 256 ^ w"
    using assms(3) self_le_power [of "256::int" w] by simp
  moreover have "0 \<le> (k - S) mod 2" "(k - S) mod 2 < 2" by simp_all
  ultimately show ?thesis using False by (simp add: low_cursor_def)
qed

lemma NextIP_down:
  assumes w: "w = 4 \<or> w = 16" and len: "length a = w" and S: "0 \<le> S" "S < 256 ^ w"
    and k: "0 \<le> k" and val: "SetBytes a = low_cursor S k"
  shows "NextIP a False = Inr (addr_of w (low_cursor S (k + 1)))"
proof -
  have wa: "width a = w" using w len by (auto simp: width_def)
  have m: "\<bar>moved a False\<bar> = low_cursor S (k + 1)"
    using low_cursor_step [OF S(1) k] val by (simp add: moved_def)
  have b: "0 \<le> low_cursor S (k + 1) \<and> low_cursor S (k + 1) < 256 ^ w"
    using w k by (intro low_cursor_bound S) auto
  show ?thesis
    unfolding NextIP_Inr_iff wa m
    using b by (simp add: length_addr_of SetBytes_addr_of)
qed

lemma NextIP_up:
  assumes w: "w = 4 \<or> w = 16" and len: "length a = w" and val: "SetBytes a = v"
  shows "NextIP a True = (if v + 1 < 256 ^ w then Inr (addr_of w (v + 1)) else Inl Panic)"
proof -
  have wa: "width a = w" using w len by (auto simp: width_def)
  have v: "0 \<le> v" using val SetBytes_nonneg [of a] by simp
  have m: "\<bar>moved a True\<bar> = v + 1" using v val by (simp add: moved_def)
  show ?thesis
  proof (cases "v + 1 < 256 ^ w")
    case True
    then have "NextIP a True = Inr (addr_of w (v + 1))"
      unfolding NextIP_Inr_iff wa m using v by (simp add: length_addr_of SetBytes_addr_of)
    with True show ?thesis by simp
  next
    case False
    then have "NextIP a True = Inl Panic"
      unfolding NextIP_Inl_iff wa m by simp
    with False show ?thesis by simp
  qed
qed

lemma crash_arith1: "S + i div 2 < P \<Longrightarrow> i \<le> 2 * (P - 1 - S) + 1" for i :: int
  by presburger

lemma crash_arith2: "\<not> S + i div 2 + 1 < P \<Longrightarrow> odd i \<Longrightarrow> 2 * (P - 1 - S) + 1 \<le> i" for i :: int
  by presburger

lemma crash_arith3: "S + i div 2 + 1 < P \<Longrightarrow> odd i \<Longrightarrow> i < 2 * (P - 1 - S) + 1" for i :: int
  by presburger

lemma addr_loop_char:
  assumes "addr_loop addr i low high = (es, r)"
    and "w = 4 \<or> w = 16" and "0 \<le> S" and "S < 256 ^ w" and "0 \<le> i"
    and "length low = w" and "length high = w"
    and "SetBytes low = low_cursor S ((i + 1) div 2)"
    and "SetBytes high = S + i div 2"
  shows "es = map (\<lambda>j. offer addr (addr_of w (candidate_value S (i + int j)))) [0..<length es]
       \<and> int (length es) = max 0 (min MaxInt (crash_at w S) - i)
       \<and> r = (if crash_at w S < MaxInt then Crashed else Closed)"
  using assms
proof (induction addr i low high arbitrary: es r rule: addr_loop.induct)
  case (1 addr i low high)
  note w = "1.prems"(2) and S = "1.prems"(3,4) and i0 = "1.prems"(5)
  note loop = "1.prems"(1)
  have hb: "S + i div 2 < 256 ^ w"
    using SetBytes_bound [of high] "1.prems"(7,9) by simp
  then have i_le: "i \<le> crash_at w S" unfolding crash_at_def by (rule crash_arith1)
  show ?case
  proof (cases "i < MaxInt")
    case False
    with loop have "es = []" "r = Closed"
      by (subst (asm) addr_loop.simps; simp)+
    with False i_le show ?thesis by simp
  next
    case lt: True
    show ?thesis
    proof (cases "i mod 2 = 0")
      case even: True
      then have ev: "even i" by presburger
      let ?low' = "addr_of w (low_cursor S ((i + 1) div 2 + 1))"
      have k0: "0 \<le> (i + 1) div 2" using i0 by simp
      have down: "NextIP low False = Inr ?low'"
        by (rule NextIP_down [OF w "1.prems"(6) S k0 "1.prems"(8)])
      obtain es' r' where rec: "addr_loop addr (i + 1) ?low' high = (es', r')"
        by (cases "addr_loop addr (i + 1) ?low' high")
      from loop lt even down rec have es: "es = offer addr ?low' # es'" and r: "r = r'"
        by (subst (asm) addr_loop.simps; simp)+
      have lb: "0 \<le> low_cursor S ((i + 1) div 2 + 1) \<and> low_cursor S ((i + 1) div 2 + 1) < 256 ^ w"
        using w k0 by (intro low_cursor_bound S) auto
      have idx: "(i + 1) div 2 + 1 = (i + 1 + 1) div 2" "(i + 1) div 2 = i div 2"
        using ev by presburger+
      have IH: "es' = map (\<lambda>j. offer addr (addr_of w (candidate_value S (i + 1 + int j)))) [0..<length es']
         \<and> int (length es') = max 0 (min MaxInt (crash_at w S) - (i + 1))
         \<and> r' = (if crash_at w S < MaxInt then Crashed else Closed)"
      proof (rule "1.IH"(1) [OF _ even down rec w S])
        show "\<not> \<not> i < MaxInt" using lt by simp
        show "0 \<le> i + 1" using i0 by simp
        show "length ?low' = w" using lb by (simp add: length_addr_of)
        show "length high = w" by (rule "1.prems"(7))
        show "SetBytes ?low' = low_cursor S ((i + 1 + 1) div 2)"
          using lb idx by (simp add: SetBytes_addr_of)
        show "SetBytes high = S + (i + 1) div 2" using "1.prems"(9) idx by simp
      qed
      have c0: "candidate_value S i = low_cursor S ((i + 1) div 2 + 1)"
        using ev idx by (simp add: candidate_value_def)
      have odd_crash: "odd (crash_at w S)" by (simp add: crash_at_def)
      with ev i_le have "i < crash_at w S" by (cases "i = crash_at w S") auto
      with lt IH have len: "int (length es) = max 0 (min MaxInt (crash_at w S) - i)"
        using es by simp
      have "map (\<lambda>j. offer addr (addr_of w (candidate_value S (i + int j)))) [0..<Suc (length es')]
          = offer addr ?low' # map (\<lambda>j. offer addr (addr_of w (candidate_value S (i + 1 + int j)))) [0..<length es']"
        using c0 by (simp add: map_upt_Suc add.assoc del: upt_Suc)
      with IH es r len show ?thesis by (simp del: upt_Suc)
    next
      case odd: False
      then have od: "odd i" by presburger
      have idx: "(i + 1) div 2 = (i + 1 + 1) div 2" "(i + 1) div 2 = i div 2 + 1"
        using od by presburger+
      have up: "NextIP high True
          = (if S + i div 2 + 1 < 256 ^ w then Inr (addr_of w (S + i div 2 + 1)) else Inl Panic)"
        by (rule NextIP_up [OF w "1.prems"(7) "1.prems"(9)])
      show ?thesis
      proof (cases "S + i div 2 + 1 < 256 ^ w")
        case False
        with up have p: "NextIP high True = Inl Panic" by simp
        from loop lt odd p have "es = []" "r = Crashed"
          by (subst (asm) addr_loop.simps; simp)+
        moreover from False od have "crash_at w S \<le> i" unfolding crash_at_def by (rule crash_arith2)
        ultimately show ?thesis using lt i_le by simp
      next
        case True
        let ?high' = "addr_of w (S + i div 2 + 1)"
        from up True have u: "NextIP high True = Inr ?high'" by simp
        obtain es' r' where rec: "addr_loop addr (i + 1) low ?high' = (es', r')"
          by (cases "addr_loop addr (i + 1) low ?high'")
        from loop lt odd u rec have es: "es = offer addr ?high' # es'" and r: "r = r'"
          by (subst (asm) addr_loop.simps; simp)+
        have hv: "0 \<le> S + i div 2 + 1" using S i0 by simp
        have IH: "es' = map (\<lambda>j. offer addr (addr_of w (candidate_value S (i + 1 + int j)))) [0..<length es']
           \<and> int (length es') = max 0 (min MaxInt (crash_at w S) - (i + 1))
           \<and> r' = (if crash_at w S < MaxInt then Crashed else Closed)"
        proof (rule "1.IH"(2) [OF _ odd u rec w S])
          show "\<not> \<not> i < MaxInt" using lt by simp
          show "0 \<le> i + 1" using i0 by simp
          show "length low = w" by (rule "1.prems"(6))
          show "length ?high' = w" using hv True by (simp add: length_addr_of)
          show "SetBytes low = low_cursor S ((i + 1 + 1) div 2)"
            using "1.prems"(8) idx by simp
          show "SetBytes ?high' = S + (i + 1) div 2"
            using hv idx by (simp add: SetBytes_addr_of)
        qed
        have c0: "candidate_value S i = S + i div 2 + 1"
          using od by (simp add: candidate_value_def)
        from True od have "i < crash_at w S" unfolding crash_at_def by (rule crash_arith3)
        with lt IH have len: "int (length es) = max 0 (min MaxInt (crash_at w S) - i)"
          using es by simp
        have "map (\<lambda>j. offer addr (addr_of w (candidate_value S (i + int j)))) [0..<Suc (length es')]
            = offer addr ?high' # map (\<lambda>j. offer addr (addr_of w (candidate_value S (i + 1 + int j)))) [0..<length es']"
          using c0 by (simp add: map_upt_Suc add.assoc del: upt_Suc)
        with IH es r len show ?thesis by (simp del: upt_Suc)
      qed
    qed
  qed
qed


lemma IterateAddr_char:
  assumes p: "ParseIP addr = Some s" and len: "length s = 4 \<or> length s = 16"
  shows "fst (IterateAddr ParseIP addr)
           = Sent \<lparr>Host.IP = s, Host.Origin = addr, Host.Type = HostTypeIP\<rparr>
             # map (\<lambda>j. offer addr (addr_of (length s) (candidate_value (SetBytes s) (int j))))
                 [0..<length (fst (IterateAddr ParseIP addr)) - 1]
       \<and> int (length (fst (IterateAddr ParseIP addr)))
           = 1 + min MaxInt (crash_at (length s) (SetBytes s))
       \<and> snd (IterateAddr ParseIP addr)
           = (if crash_at (length s) (SetBytes s) < MaxInt then Crashed else Closed)"
proof -
  obtain es r where loop: "addr_loop addr 0 s s = (es, r)"
    by (cases "addr_loop addr 0 s s")
  have it: "IterateAddr ParseIP addr = (Sent \<lparr>Host.IP = s, Host.Origin = addr, Host.Type = HostTypeIP\<rparr> # es, r)"
    using p loop by (simp add: IterateAddr_def)
  have S: "0 \<le> SetBytes s" "SetBytes s < 256 ^ length s"
    by (rule SetBytes_nonneg, rule SetBytes_bound)
  have c: "es = map (\<lambda>j. offer addr (addr_of (length s) (candidate_value (SetBytes s) (0 + int j)))) [0..<length es]
       \<and> int (length es) = max 0 (min MaxInt (crash_at (length s) (SetBytes s)) - 0)
       \<and> r = (if crash_at (length s) (SetBytes s) < MaxInt then Crashed else Closed)"
    using S by (intro addr_loop_char [OF loop len S]) (simp_all add: low_cursor_def)
  have "0 \<le> crash_at (length s) (SetBytes s)" using S by (simp add: crash_at_def)
  then have "0 \<le> min MaxInt (crash_at (length s) (SetBytes s))" by (simp add: MaxInt_def)
  with c it show ?thesis by simp
qed

lemma example_seed_value: "SetBytes example_seed = 281473902969394" "length example_seed = 16"
  by code_simp+

lemma zero_seed_value: "SetBytes (replicate 16 0) = 0"
  by (rule SetBytes_replicate0)

lemma example_seed_length:
  "int (length (fst (IterateAddr example_ParseIP ''192.0.2.50''))) = 2 ^ 63"
  "snd (IterateAddr example_ParseIP ''192.0.2.50'') = Closed"
proof -
  have p: "example_ParseIP ''192.0.2.50'' = Some example_seed"
    by (simp add: example_ParseIP_def)
  have l: "length example_seed = 4 \<or> length example_seed = 16"
    by (simp add: example_seed_value)
  note c = IterateAddr_char [of example_ParseIP "''192.0.2.50''" example_seed, OF p l]
  from c show "int (length (fst (IterateAddr example_ParseIP ''192.0.2.50''))) = 2 ^ 63"
    by (simp add: example_seed_value crash_at_def MaxInt_def)
  from c show "snd (IterateAddr example_ParseIP ''192.0.2.50'') = Closed"
    by (simp add: example_seed_value crash_at_def MaxInt_def)
qed

lemma IterateAddr_top_seed_crashes:
  "IterateAddr example_ParseIP ''ffff:ffff:ffff:ffff:ffff:ffff:ffff:ffff''
     = ([Sent \<lparr>Host.IP = replicate 16 255, Host.Origin = ''ffff:ffff:ffff:ffff:ffff:ffff:ffff:ffff'', Host.Type = HostTypeIP\<rparr>,
         Skipped (replicate 15 255 @ [254])], Crashed)"
  by code_simp

text \<open>
  Claim C5, as amended. The seed is sent first, whatever \<^verbatim>\<open>isValidIP\<close> says of it.
  After it, the candidate of loop iteration \<open>2k\<close> has the value of the seed minus
  \<open>k + 1\<close> as long as that value is not negative, and the candidate of iteration
  \<open>2k + 1\<close>, when the loop reaches it, has the value of the seed plus \<open>k + 1\<close>. Every
  candidate has the seed's width and is sent exactly when \<^verbatim>\<open>isValidIP\<close> accepts it,
  so a rejected candidate moves neither cursor.
\<close>

theorem IterateAddr_candidates:
  assumes "ParseIP addr = Some s" and "length s = 4 \<or> length s = 16"
    and "IterateAddr ParseIP addr = (es, r)"
  shows "es \<noteq> [] \<and> hd es = Sent \<lparr>Host.IP = s, Host.Origin = addr, Host.Type = HostTypeIP\<rparr>
     \<and> (\<forall>k. 2 * k + 1 < length es \<and> int k + 1 \<le> SetBytes s
            \<longrightarrow> SetBytes (candidate (es ! (2 * k + 1))) = SetBytes s - (int k + 1))
     \<and> (\<forall>k. 2 * k + 2 < length es
            \<longrightarrow> SetBytes (candidate (es ! (2 * k + 2))) = SetBytes s + (int k + 1))
     \<and> (\<forall>j. 0 < j \<and> j < length es
            \<longrightarrow> es ! j = offer addr (candidate (es ! j)) \<and> length (candidate (es ! j)) = length s)"
proof -
  let ?S = "SetBytes s" and ?w = "length s"
  note c = IterateAddr_char [of ParseIP addr s, OF assms(1,2)]
  from c assms(3) have es: "es = Sent \<lparr>Host.IP = s, Host.Origin = addr, Host.Type = HostTypeIP\<rparr>
      # map (\<lambda>j. offer addr (addr_of ?w (candidate_value ?S (int j)))) [0..<length es - 1]"
    by simp
  from c assms(3) have crash: "int (length es) \<le> 1 + crash_at ?w ?S" by simp
  have S: "0 \<le> ?S" "?S < 256 ^ ?w" by (rule SetBytes_nonneg, rule SetBytes_bound)
  have w0: "0 < ?w" using assms(2) by auto
  have nth: "es ! Suc j = offer addr (addr_of ?w (candidate_value ?S (int j)))"
    if "Suc j < length es" for j
  proof -
    from that have "j < length es - 1" by simp
    then have "(Sent \<lparr>Host.IP = s, Host.Origin = addr, Host.Type = HostTypeIP\<rparr>
      # map (\<lambda>j. offer addr (addr_of ?w (candidate_value ?S (int j)))) [0..<length es - 1]) ! Suc j
      = offer addr (addr_of ?w (candidate_value ?S (int j)))" by simp
    with es show ?thesis by simp
  qed
  have cand_offer: "candidate (offer addr a) = a" for a
    by (simp add: offer_def)
  have range: "0 \<le> candidate_value ?S (int j) \<and> candidate_value ?S (int j) < 256 ^ ?w"
    if "Suc j < length es" for j
  proof (cases "even j")
    case True
    then have "candidate_value ?S (int j) = low_cursor ?S (int j div 2 + 1)"
      by (simp add: candidate_value_def)
    moreover have "0 \<le> int j div 2 + 1" by simp
    ultimately show ?thesis using low_cursor_bound [OF S w0] by simp
  next
    case False
    then have v: "candidate_value ?S (int j) = ?S + (int j div 2 + 1)"
      by (simp add: candidate_value_def)
    from that crash have "int j < crash_at ?w ?S" by simp
    with False have "?S + (int j div 2 + 1) < 256 ^ ?w"
      unfolding crash_at_def by presburger
    with v S show ?thesis by simp
  qed
  have cand: "candidate (es ! Suc j) = addr_of ?w (candidate_value ?S (int j))"
    if "Suc j < length es" for j
    using nth [OF that] by (simp add: cand_offer)
  have val: "SetBytes (candidate (es ! Suc j)) = candidate_value ?S (int j)"
    if "Suc j < length es" for j
    using cand [OF that] range [OF that] by (simp add: SetBytes_addr_of)
  have low: "SetBytes (candidate (es ! (2 * k + 1))) = ?S - (int k + 1)"
    if "2 * k + 1 < length es" "int k + 1 \<le> ?S" for k
  proof -
    have "candidate_value ?S (int (2 * k)) = ?S - (int k + 1)"
      using that(2) by (simp add: candidate_value_def low_cursor_def)
    with val [of "2 * k"] that(1) show ?thesis by simp
  qed
  have high: "SetBytes (candidate (es ! (2 * k + 2))) = ?S + (int k + 1)"
    if "2 * k + 2 < length es" for k
  proof -
    have "int (2 * k + 1) div 2 = int k" by simp
    then have "candidate_value ?S (int (2 * k + 1)) = ?S + (int k + 1)"
      by (simp add: candidate_value_def)
    with val [of "2 * k + 1"] that show ?thesis by simp
  qed
  have each: "es ! j = offer addr (candidate (es ! j)) \<and> length (candidate (es ! j)) = ?w"
    if "0 < j" "j < length es" for j
  proof -
    from that obtain j' where j: "j = Suc j'" by (cases j) auto
    with that have lt: "Suc j' < length es" by simp
    show ?thesis
      unfolding j using nth [OF lt] cand [OF lt] range [OF lt] by (simp add: length_addr_of)
  qed
  from es have "es \<noteq> []" "hd es = Sent \<lparr>Host.IP = s, Host.Origin = addr, Host.Type = HostTypeIP\<rparr>"
    by (cases es; simp)+
  with low high each show ?thesis by blast
qed


theorem IterateAddr_candidates_witness:
  "example_ParseIP ''192.0.2.50'' = Some example_seed
   \<and> length example_seed = 16
   \<and> hd (fst (IterateAddr example_ParseIP ''192.0.2.50''))
       = Sent \<lparr>Host.IP = example_seed, Host.Origin = ''192.0.2.50'', Host.Type = HostTypeIP\<rparr>
   \<and> SetBytes (candidate (fst (IterateAddr example_ParseIP ''192.0.2.50'') ! 1))
       = SetBytes example_seed - 1
   \<and> SetBytes (candidate (fst (IterateAddr example_ParseIP ''192.0.2.50'') ! 2))
       = SetBytes example_seed + 1
   \<and> SetBytes (candidate (fst (IterateAddr example_ParseIP ''192.0.2.50'') ! 3))
       = SetBytes example_seed - 2
   \<and> SetBytes (candidate (fst (IterateAddr example_ParseIP ''192.0.2.50'') ! 4))
       = SetBytes example_seed + 2"
proof -
  let ?es = "fst (IterateAddr example_ParseIP ''192.0.2.50'')"
  have p: "example_ParseIP ''192.0.2.50'' = Some example_seed"
    by (simp add: example_ParseIP_def)
  have l: "length example_seed = 4 \<or> length example_seed = 16"
    by (simp add: example_seed_value)
  have e: "IterateAddr example_ParseIP ''192.0.2.50''
      = (?es, snd (IterateAddr example_ParseIP ''192.0.2.50''))" by simp
  have n: "4 < length ?es" using example_seed_length(1) by simp
  note t = IterateAddr_candidates [of example_ParseIP "''192.0.2.50''" example_seed, OF p l e]
  from t have low: "2 * k + 1 < length ?es \<Longrightarrow> int k + 1 \<le> SetBytes example_seed \<Longrightarrow>
      SetBytes (candidate (?es ! (2 * k + 1))) = SetBytes example_seed - (int k + 1)" for k
    by blast
  from t have high: "2 * k + 2 < length ?es \<Longrightarrow>
      SetBytes (candidate (?es ! (2 * k + 2))) = SetBytes example_seed + (int k + 1)" for k
    by blast
  from t have first: "hd ?es = Sent \<lparr>Host.IP = example_seed, Host.Origin = ''192.0.2.50'', Host.Type = HostTypeIP\<rparr>"
    by blast
  have c1: "SetBytes (candidate (?es ! 1)) = SetBytes example_seed - 1"
    using low [of 0] n by (simp add: example_seed_value)
  have c2: "SetBytes (candidate (?es ! 2)) = SetBytes example_seed + 1"
    using high [of 0] n by (simp add: example_seed_value numeral_2_eq_2)
  have c3: "SetBytes (candidate (?es ! 3)) = SetBytes example_seed - 2"
    using low [of 1] n by (simp add: example_seed_value)
  have c4: "SetBytes (candidate (?es ! 4)) = SetBytes example_seed + 2"
    using high [of 1] n by (simp add: example_seed_value)
  from p first c1 c2 c3 c4 show ?thesis
    by (simp only: example_seed_value simp_thms)
qed

text \<open>
  The claim as stated, for every seed, fails at the seed \<^verbatim>\<open>::\<close>: the first candidate
  is \<^verbatim>\<open>::1\<close>, the seed plus one, since \<^verbatim>\<open>NextIP\<close> returns the magnitude of \<open>-1\<close>.
\<close>

theorem IterateAddr_zero_seed_counterexample:
  "candidate (fst (IterateAddr example_ParseIP ''::'') ! 1) = replicate 15 0 @ [1]
   \<and> SetBytes (candidate (fst (IterateAddr example_ParseIP ''::'') ! 1)) = SetBytes (replicate 16 0) + 1
   \<and> SetBytes (candidate (fst (IterateAddr example_ParseIP ''::'') ! 1)) \<noteq> SetBytes (replicate 16 0) - 1"
proof -
  let ?es = "fst (IterateAddr example_ParseIP ''::'')"
  have p: "example_ParseIP ''::'' = Some (replicate 16 0)"
    by (simp add: example_ParseIP_def)
  have l: "length (replicate 16 (0::byte)) = 4 \<or> length (replicate 16 (0::byte)) = 16"
    by simp
  note c = IterateAddr_char [of example_ParseIP "''::''" "replicate 16 0", OF p l]
  from c have len: "int (length ?es) = 2 ^ 63"
    by (simp add: zero_seed_value crash_at_def MaxInt_def)
  then have n: "0 < length ?es - 1" by simp
  from c have eq: "?es = Sent \<lparr>Host.IP = replicate 16 0, Host.Origin = ''::'', Host.Type = HostTypeIP\<rparr>
      # map (\<lambda>j. offer ''::'' (addr_of 16 (candidate_value 0 (int j)))) [0..<length ?es - 1]"
    by (simp add: zero_seed_value)
  have "?es ! 1 = (Sent \<lparr>Host.IP = replicate 16 0, Host.Origin = ''::'', Host.Type = HostTypeIP\<rparr>
      # map (\<lambda>j. offer ''::'' (addr_of 16 (candidate_value 0 (int j)))) [0..<length ?es - 1]) ! 1"
    by (rule arg_cong [OF eq])
  also have "\<dots> = map (\<lambda>j. offer ''::'' (addr_of 16 (candidate_value 0 (int j))))
      [0..<length ?es - 1] ! 0"
    by simp
  also have "\<dots> = offer ''::'' (addr_of 16 (candidate_value 0 (int 0)))"
    using n by (subst nth_map) simp_all
  also have "candidate_value 0 (int 0) = 1"
    by (simp add: candidate_value_def low_cursor_def)
  finally have "candidate (?es ! 1) = addr_of 16 1" by (simp add: offer_def)
  moreover have "addr_of 16 1 = replicate 15 0 @ [1]" by code_simp
  moreover have "SetBytes (replicate 15 0 @ [1]) = 1"
    by (simp add: SetBytes_pad) (simp add: SetBytes_def)
  ultimately show ?thesis by (simp only: zero_seed_value) simp
qed

text \<open>
  Claim C9, as amended. For a 16-byte seed at least \<open>2 ^ 62\<close> below the top of the
  address space, the loop yields one candidate in each of its \<open>2 ^ 63 - 1\<close> iterations
  (\<^verbatim>\<open>math.MaxInt\<close>) and then ends on its own, closing the channel: the stream is the
  seed followed by exactly \<open>2 ^ 63 - 1\<close> candidates.
\<close>

theorem IterateAddr_ends:
  assumes "ParseIP addr = Some s" and "length s = 16" and "SetBytes s + 2 ^ 62 \<le> 2 ^ 128"
  shows "snd (IterateAddr ParseIP addr) = Closed
     \<and> int (length (fst (IterateAddr ParseIP addr))) = 2 ^ 63"
proof -
  have l: "length s = 4 \<or> length s = 16" using assms(2) by simp
  note c = IterateAddr_char [of ParseIP addr s, OF assms(1) l]
  have "(256::int) ^ 16 = 2 ^ 128" by simp
  with assms(3) have "MaxInt \<le> crash_at 16 (SetBytes s)"
    unfolding crash_at_def MaxInt_def by simp
  with c assms(2) show ?thesis by (simp add: MaxInt_def)
qed

theorem IterateAddr_ends_witness:
  "example_ParseIP ''::'' = Some (replicate 16 0)
   \<and> length (replicate 16 (0::byte)) = 16
   \<and> SetBytes (replicate 16 0) + 2 ^ 62 \<le> 2 ^ 128
   \<and> snd (IterateAddr example_ParseIP ''::'') = Closed
   \<and> int (length (fst (IterateAddr example_ParseIP ''::''))) = 2 ^ 63"
proof -
  have p: "example_ParseIP ''::'' = Some (replicate 16 0)"
    by (simp add: example_ParseIP_def)
  have l: "length (replicate 16 (0::byte)) = 16" by simp
  have b: "SetBytes (replicate 16 0) + 2 ^ 62 \<le> 2 ^ 128"
    by (simp add: zero_seed_value)
  from IterateAddr_ends [of example_ParseIP "''::''" "replicate 16 0", OF p l b] p l b
  show ?thesis by blast
qed

text \<open>
  The claim as stated fails at the seed 192.0.2.50: its stream is finite and the producer
  closes it without any cancellation.
\<close>

theorem IterateAddr_ends_counterexample:
  "snd (IterateAddr example_ParseIP ''192.0.2.50'') = Closed
   \<and> int (length (fst (IterateAddr example_ParseIP ''192.0.2.50''))) = 2 ^ 63"
  using example_seed_length by simp

section \<open>Properties of the probe and of the classifier\<close>

lemma IsRealityFeasible_ignores_Feasible:
  "IsRealityFeasible sc w (sr\<lparr>Feasible := b\<rparr>) = IsRealityFeasible sc w sr"
  by (simp add: IsRealityFeasible_def)

lemma IsRealityFeasible_verdict:
  "fst (IsRealityFeasible sc w sr) \<longleftrightarrow>
     TLSVersion sr = ''TLS 1.3'' \<and> ALPN sr = ''h2'' \<and> Curve sr = ''X25519''
     \<and> CertDomain sr \<noteq> [] \<and> CertIssuer sr \<noteq> []
     \<and> \<not> DetectCloudflareCDN w (CertDomain sr)
     \<and> (\<not> PingDomain sc \<or> CheckDomainConnectivity sc w (CertDomain sr))"
  by (simp add: IsRealityFeasible_def RequiredTLSVersion_def RequiredALPN_def RequiredCurve_def
      isValidRealityDomain_def)

lemma IsRealityFeasible_calls:
  "list_all (\<lambda>c. call_domain c = CertDomain sr) (snd (IsRealityFeasible sc w sr))"
  by (simp add: IsRealityFeasible_def)

lemma IsRealityFeasible_probes_first:
  "fst (IsRealityFeasible sc w sr) \<Longrightarrow>
     Call_DetectCloudflareCDN (CertDomain sr) \<in> set (snd (IsRealityFeasible sc w sr))"
  by (simp add: IsRealityFeasible_def split: if_splits)

lemma fillResult_keeps:
  "Error (fillResult result state elapsed) = Error result"
  "Feasible (fillResult result state elapsed) = Feasible result"
  by (simp_all add: fillResult_def Let_def split: list.splits)

lemma fillResult_CertDomain:
  "PeerCertificates state = cert # certs \<Longrightarrow> DNSNames cert = n # ns \<Longrightarrow>
     CertDomain (fillResult result state elapsed) = Join (n # ns) '',''"
  by (simp add: fillResult_def Let_def split: list.splits)

lemma length_Join_Cons: "length n \<le> length (Join (n # ns) sep)"
  by (cases ns) simp_all

lemma Join_first_iff: "Join (n # ns) '','' = n \<longleftrightarrow> ns = []"
proof (cases ns)
  case Nil
  then show ?thesis by simp
next
  case (Cons m ms)
  have "length (Join (n # m # ms) '','') = length n + 1 + length (Join (m # ms) '','')"
    by simp
  moreover have "length (Join (n # m # ms) '','') = length n" if "Join (n # m # ms) '','' = n"
    using that by (rule arg_cong)
  ultimately have "Join (n # m # ms) '','' \<noteq> n" by auto
  with Cons show ?thesis by simp
qed

lemma newResult_clean:
  "Error (newResult x origin port) = []" "\<not> Feasible (newResult x origin port)"
  by (simp_all add: newResult_def)

lemma msg_nonempty:
  "msg_tcp_failed \<noteq> []" "msg_tls_failed \<noteq> []" "msg_resolve_failed \<noteq> []"
  "msg_unsupported_type \<noteq> []"
  by (simp_all add: msg_tcp_failed_def msg_tls_failed_def msg_resolve_failed_def
      msg_unsupported_type_def)

lemma scanSingleIP_ok: "result_ok (scanSingleIP cfg sc w geo a origin)"
  by (auto simp: scanSingleIP_def Let_def result_ok_def newResult_clean fillResult_keeps
      IsRealityFeasible_verdict split: option.splits sum.splits)

lemma ScanTLS_ok: "r \<in> set (ScanTLS cfg sc w geo host) \<Longrightarrow> result_ok r"
  by (auto simp: ScanTLS_def scanSingleIP_ok split: if_splits sum.splits)
     (simp_all add: result_ok_def newResult_def)

lemma scanSingleIP_dial_error:
  "net_DialTimeout w (ip_String w a @ '':'' @ Itoa (Config.Port cfg)) (Timeout cfg) = Some e \<Longrightarrow>
     \<not> Feasible (scanSingleIP cfg sc w geo a origin) \<and> Error (scanSingleIP cfg sc w geo a origin) \<noteq> []"
  by (simp add: scanSingleIP_def Let_def newResult_clean msg_nonempty split: option.splits)

lemma scanSingleIP_tls_error:
  "net_DialTimeout w (ip_String w a @ '':'' @ Itoa (Config.Port cfg)) (Timeout cfg) = None \<Longrightarrow>
   tls_Handshake w (ip_String w a @ '':'' @ Itoa (Config.Port cfg)) (tlsConfigFor origin) = Inl e \<Longrightarrow>
     \<not> Feasible (scanSingleIP cfg sc w geo a origin) \<and> Error (scanSingleIP cfg sc w geo a origin) \<noteq> []"
  by (simp add: scanSingleIP_def Let_def newResult_clean msg_nonempty split: option.splits)

lemma ScanTLS_dns_error:
  "Host.Type host = HostTypeDomain \<Longrightarrow> ResolveDomain cfg w (Host.Origin host) = Inl e \<Longrightarrow>
     ScanTLS cfg sc w geo host
       = [(newResult [] (Host.Origin host) (Config.Port cfg))\<lparr>Error := msg_resolve_failed @ e\<rparr>]"
  by (simp add: ScanTLS_def HostTypeDomain_def HostTypeIP_def)


lemma example_scan:
  "ScanTLS example_config example_control example_world None example_host = [example_result]"
  by code_simp

lemma example_dial_fails:
  "net_DialTimeout example_world
     (ip_String example_world [192, 0, 2, 99] @ '':'' @ Itoa (Config.Port example_config))
     (Timeout example_config) = Some ''connection refused''"
  by code_simp

lemma scanSingleIP_success:
  assumes "net_DialTimeout w (ip_String w a @ '':'' @ Itoa (Config.Port cfg)) (Timeout cfg) = None"
    and "tls_Handshake w (ip_String w a @ '':'' @ Itoa (Config.Port cfg)) (tlsConfigFor origin) = Inr state"
  shows "\<exists>r0. scanSingleIP cfg sc w geo a origin
           = (fillResult r0 state (time_Since w (ip_String w a @ '':'' @ Itoa (Config.Port cfg))))
               \<lparr>Feasible := fst (IsRealityFeasible sc w
                   (fillResult r0 state (time_Since w (ip_String w a @ '':'' @ Itoa (Config.Port cfg)))))\<rparr>"
  using assms by (auto simp: scanSingleIP_def Let_def)

lemma example_multi_san:
  "net_DialTimeout example_world
     (ip_String example_world [192, 0, 2, 20] @ '':'' @ Itoa (Config.Port example_config))
     (Timeout example_config) = None"
  "tls_Handshake example_world
     (ip_String example_world [192, 0, 2, 20] @ '':'' @ Itoa (Config.Port example_config))
     (tlsConfigFor ''192.0.2.20'') = Inr (example_state example_cert2)"
  "PeerCertificates (example_state example_cert2) = example_cert2 # []"
  "DNSNames example_cert2 = ''cf.example.test'' # [''www.example.test'']"
  by code_simp+

lemma tlsConfigFor_ServerName:
  "ServerName (tlsConfigFor origin) = (if ValidateDomainName origin then origin else [])"
  by (simp add: tlsConfigFor_def)

lemma ParseHost_Domain_ServerName:
  "ParseHost w s = Inr h \<Longrightarrow> Host.Type h = HostTypeDomain \<Longrightarrow>
     ServerName (tlsConfigFor (Host.Origin h)) = Host.Origin h"
  by (auto simp: ParseHost_def Let_def tlsConfigFor_ServerName HostTypeDomain_def HostTypeIP_def
      HostTypeCIDR_def split: option.splits if_splits)

lemma probes_receive_cert_sans:
  assumes "net_DialTimeout w (ip_String w a @ '':'' @ Itoa (Config.Port cfg)) (Timeout cfg) = None"
    and "tls_Handshake w (ip_String w a @ '':'' @ Itoa (Config.Port cfg)) (tlsConfigFor origin) = Inr state"
    and "PeerCertificates state = cert # certs"
    and "DNSNames cert = n # ns"
  shows "CertDomain (scanSingleIP cfg sc w geo a origin) = Join (n # ns) '',''
     \<and> Feasible (scanSingleIP cfg sc w geo a origin)
         = fst (IsRealityFeasible sc w (scanSingleIP cfg sc w geo a origin))
     \<and> list_all (\<lambda>c. call_domain c = Join (n # ns) '','')
         (snd (IsRealityFeasible sc w (scanSingleIP cfg sc w geo a origin)))
     \<and> (Feasible (scanSingleIP cfg sc w geo a origin) \<longrightarrow>
          Call_DetectCloudflareCDN (Join (n # ns) '','')
            \<in> set (snd (IsRealityFeasible sc w (scanSingleIP cfg sc w geo a origin))))
     \<and> (Join (n # ns) '','' = n \<longleftrightarrow> ns = [])"
proof -
  let ?r = "scanSingleIP cfg sc w geo a origin"
  from scanSingleIP_success [OF assms(1,2)] obtain r0 where
    r: "?r = (fillResult r0 state (time_Since w (ip_String w a @ '':'' @ Itoa (Config.Port cfg))))
               \<lparr>Feasible := fst (IsRealityFeasible sc w
                   (fillResult r0 state (time_Since w (ip_String w a @ '':'' @ Itoa (Config.Port cfg)))))\<rparr>"
    by blast
  have cd: "CertDomain ?r = Join (n # ns) '',''"
    unfolding r by (simp add: fillResult_CertDomain [OF assms(3,4)])
  have fe: "Feasible ?r = fst (IsRealityFeasible sc w ?r)"
    unfolding r by (simp add: IsRealityFeasible_ignores_Feasible)
  have calls: "list_all (\<lambda>c. call_domain c = Join (n # ns) '','') (snd (IsRealityFeasible sc w ?r))"
    using IsRealityFeasible_calls [of ?r sc w] unfolding cd .
  have first: "Call_DetectCloudflareCDN (Join (n # ns) '','') \<in> set (snd (IsRealityFeasible sc w ?r))"
    if "Feasible ?r"
    using IsRealityFeasible_probes_first [of sc w ?r] that fe cd by simp
  from cd fe calls first Join_first_iff [of n ns] show ?thesis by blast
qed

lemma dotted_quad_origin_ServerName:
  "ParseHost example_world ''192.0.2.10''
     = Inr \<lparr>Host.IP = replicate 10 0 @ [255, 255, 192, 0, 2, 10], Host.Origin = ''192.0.2.10'',
           Host.Type = HostTypeIP\<rparr>
   \<and> ValidateDomainName ''192.0.2.10''
   \<and> ServerName (tlsConfigFor ''192.0.2.10'') = ''192.0.2.10''"
  by code_simp

lemma set_Join: "set (Join fs sep) \<subseteq> \<Union> (set ` set fs) \<union> set sep"
  by (induction fs sep rule: Join.induct) auto

lemma Split_nonempty: "Split s sep \<noteq> []"
  by (induction s) (auto split: list.splits)

lemma Join_Cons_Cons: "Join ((c # l) # ls) sep = c # Join (l # ls) sep"
  by (cases ls) simp_all

lemma Join_Split: "Join (Split s sep) [sep] = s"
proof (induction s)
  case Nil
  show ?case by simp
next
  case (Cons c s)
  obtain l ls where sp: "Split s sep = l # ls"
    using Split_nonempty [of s sep] by (cases "Split s sep") auto
  show ?case
  proof (cases "c = sep")
    case True
    then show ?thesis using Cons sp by simp
  next
    case False
    then show ?thesis using Cons sp by (simp add: Join_Cons_Cons)
  qed
qed

lemma Join_last:
  "ls \<noteq> [] \<Longrightarrow> last ls \<noteq> [] \<Longrightarrow> Join ls sep \<noteq> [] \<and> last (Join ls sep) = last (last ls)"
  by (induction ls sep rule: Join.induct) auto

lemma Join_hd: "l \<noteq> [] \<Longrightarrow> hd (Join (l # ls) sep) = hd l"
  by (cases ls) simp_all

lemma label_ok_chars:
  assumes "label_ok l"
  shows "l \<noteq> [] \<and> isAlnum (hd l) \<and> isAlnum (last l)
         \<and> (\<forall>c \<in> set l. isAlnum c \<or> c = CHR ''-'')"
proof -
  from assms obtain c rest where l: "l = c # rest" and c: "isAlnum c"
    and r: "rest = [] \<or> (list_all (\<lambda>c. isAlnum c \<or> c = CHR ''-'') (butlast rest) \<and> isAlnum (last rest))"
    by (auto simp: label_ok_def split: list.splits)
  show ?thesis
  proof (cases "rest = []")
    case True
    with l c show ?thesis by simp
  next
    case False
    with r have b: "\<forall>x \<in> set (butlast rest). isAlnum x \<or> x = CHR ''-''" and la: "isAlnum (last rest)"
      by (simp_all add: list_all_iff)
    have "set (butlast rest @ [last rest]) = set rest" using False by simp
    then have "set rest = set (butlast rest) \<union> {last rest}" by (simp only: set_append) simp
    with b la have "\<forall>x \<in> set rest. isAlnum x \<or> x = CHR ''-''" by auto
    with l c la False show ?thesis by simp
  qed
qed

lemma ValidateDomainName_chars:
  assumes "ValidateDomainName d"
  shows "d \<noteq> [] \<and> isAlnum (hd d) \<and> isAlnum (last d)
         \<and> (\<forall>c \<in> set d. isAlnum c \<or> c = CHR ''-'' \<or> c = CHR ''.'')"
proof -
  let ?ls = "Split d (CHR ''.'')"
  from assms have ok: "\<forall>l \<in> set ?ls. label_ok l"
    by (simp add: ValidateDomainName_def list_all_iff split: if_splits)
  have d: "Join ?ls ''.'' = d" by (rule Join_Split)
  obtain l ls where ls: "?ls = l # ls"
    using Split_nonempty [of d "CHR ''.''"] by (cases ?ls) auto
  from ok ls have l: "l \<noteq> []" "isAlnum (hd l)" using label_ok_chars [of l] by simp_all
  have "last ?ls \<in> set ?ls" using Split_nonempty [of d "CHR ''.''"] by (rule last_in_set)
  with ok have la: "last ?ls \<noteq> []" "isAlnum (last (last ?ls))"
    using label_ok_chars [of "last ?ls"] by simp_all
  from Join_last [OF Split_nonempty la(1), of "''.''"]
  have ne: "d \<noteq> []" and last: "last d = last (last ?ls)" unfolding d by simp_all
  have "hd (Join (l # ls) ''.'') = hd l" by (rule Join_hd [OF l(1)])
  then have hd: "hd d = hd l" using d ls by simp
  have "c \<in> set d \<Longrightarrow> isAlnum c \<or> c = CHR ''-'' \<or> c = CHR ''.''" for c
  proof -
    assume "c \<in> set d"
    with set_Join [of ?ls "''.''", unfolded d]
    have "c = CHR ''.'' \<or> (\<exists>l \<in> set ?ls. c \<in> set l)" by auto
    then show ?thesis using ok label_ok_chars by blast
  qed
  with ne hd last l la show ?thesis by simp
qed


lemma not_alnum: "\<not> isAlnum (CHR 0x5B)" "\<not> isAlnum (CHR 0x25)" "\<not> isAlnum (CHR ''.'')"
  "\<not> isAlnum (CHR ''/'')"
  by (simp_all add: isAlnum_def)

lemma hostnameInSNI_Nil: "hostnameInSNI w [] = []"
  by (simp add: hostnameInSNI_def LastIndex_def)

lemma hostnameInSNI_domain:
  assumes v: "ValidateDomainName d" and p: "net_ParseIP w d = None"
  shows "hostnameInSNI w d = d"
proof -
  note c = ValidateDomainName_chars [OF v]
  from c have "hd d \<noteq> CHR 0x5B" using not_alnum(1) by auto
  moreover have "CHR 0x25 \<notin> set d" using c not_alnum(2) by auto
  then have "LastIndex d (CHR 0x25) = - 1" by (simp add: LastIndex_def)
  moreover have "last d \<noteq> CHR ''.''" using c not_alnum(3) by auto
  then have "dropWhile (\<lambda>c. c = CHR ''.'') (rev d) = rev d"
    using c by (cases d rule: rev_cases) auto
  ultimately show ?thesis using p by (simp add: hostnameInSNI_def)
qed

lemma hostnameInSNI_ip:
  assumes v: "ValidateDomainName a" and p: "net_ParseIP w a \<noteq> None"
  shows "hostnameInSNI w a = []"
proof -
  note c = ValidateDomainName_chars [OF v]
  from c have "hd a \<noteq> CHR 0x5B" using not_alnum(1) by auto
  moreover have "CHR 0x25 \<notin> set a" using c not_alnum(2) by auto
  then have "LastIndex a (CHR 0x25) = - 1" by (simp add: LastIndex_def)
  ultimately show ?thesis using p by (simp add: hostnameInSNI_def)
qed

lemma sentServerName_domain:
  "ValidateDomainName d \<Longrightarrow> net_ParseIP w d = None \<Longrightarrow> sentServerName w d = d"
  by (simp add: sentServerName_def tlsConfigFor_def hostnameInSNI_domain)

lemma sentServerName_ip: "net_ParseIP w a \<noteq> None \<Longrightarrow> sentServerName w a = []"
  by (cases "ValidateDomainName a")
     (simp_all add: sentServerName_def tlsConfigFor_def hostnameInSNI_ip hostnameInSNI_Nil)

lemma slash_not_domain: "CHR ''/'' \<in> set c \<Longrightarrow> \<not> ValidateDomainName c"
  using ValidateDomainName_chars [of c] not_alnum(4) by auto

lemma sentServerName_cidr: "CHR ''/'' \<in> set c \<Longrightarrow> sentServerName w c = []"
  by (simp add: sentServerName_def tlsConfigFor_def slash_not_domain hostnameInSNI_Nil)

lemma sent_offer: "h \<in> set (sent [offer addr a]) \<Longrightarrow> Host.Origin h = addr \<and> Host.Type h = HostTypeIP"
  by (auto simp: offer_def split: if_splits)

lemma sent_Cons_offer:
  "h \<in> set (sent (offer addr a # es)) \<Longrightarrow>
     (Host.Origin h = addr \<and> Host.Type h = HostTypeIP) \<or> h \<in> set (sent es)"
  by (auto simp: offer_def split: if_splits)

lemma addr_loop_sent:
  "addr_loop addr i lo hi = (es, r) \<Longrightarrow> h \<in> set (sent es) \<Longrightarrow>
     Host.Origin h = addr \<and> Host.Type h = HostTypeIP"
proof (induction addr i lo hi arbitrary: es r rule: addr_loop.induct)
  case (1 addr i lo hi)
  show ?case
  proof (cases "i < MaxInt")
    case False
    with "1.prems" show ?thesis by (subst (asm) addr_loop.simps) simp
  next
    case lt: True
    show ?thesis
    proof (cases "i mod 2 = 0")
      case True
      show ?thesis
      proof (cases "NextIP lo False")
        case (Inl e)
        with "1.prems" lt True show ?thesis by (subst (asm) addr_loop.simps) simp
      next
        case (Inr lo')
        obtain es' r' where rec: "addr_loop addr (i + 1) lo' hi = (es', r')"
          by (cases "addr_loop addr (i + 1) lo' hi")
        with "1.prems"(1) lt True Inr have es: "es = offer addr lo' # es'"
          by (subst (asm) addr_loop.simps) simp
        from "1.prems"(2) [unfolded es] sent_Cons_offer
        have "(Host.Origin h = addr \<and> Host.Type h = HostTypeIP) \<or> h \<in> set (sent es')" by blast
        then show ?thesis using "1.IH"(1) [OF _ True Inr rec] lt by auto
      qed
    next
      case False
      show ?thesis
      proof (cases "NextIP hi True")
        case (Inl e)
        with "1.prems" lt False show ?thesis by (subst (asm) addr_loop.simps) simp
      next
        case (Inr hi')
        obtain es' r' where rec: "addr_loop addr (i + 1) lo hi' = (es', r')"
          by (cases "addr_loop addr (i + 1) lo hi'")
        with "1.prems"(1) lt False Inr have es: "es = offer addr hi' # es'"
          by (subst (asm) addr_loop.simps) simp
        from "1.prems"(2) [unfolded es] sent_Cons_offer
        have "(Host.Origin h = addr \<and> Host.Type h = HostTypeIP) \<or> h \<in> set (sent es')" by blast
        then show ?thesis using "1.IH"(2) [OF _ False Inr rec] lt by auto
      qed
    qed
  qed
qed

lemma IterateAddr_sent:
  assumes "h \<in> set (sent (fst (IterateAddr P addr)))"
  shows "Host.Origin h = addr \<and> Host.Type h = HostTypeIP \<and> P addr \<noteq> None"
proof (cases "P addr")
  case None
  with assms show ?thesis by (simp add: IterateAddr_def)
next
  case (Some s)
  obtain es r where loop: "addr_loop addr 0 s s = (es, r)" by (cases "addr_loop addr 0 s s")
  with Some assms have "h = \<lparr>Host.IP = s, Host.Origin = addr, Host.Type = HostTypeIP\<rparr> \<or> h \<in> set (sent es)"
    by (auto simp: IterateAddr_def)
  then show ?thesis using addr_loop_sent [OF loop] Some by auto
qed

lemma IterateCIDR_hosts:
  assumes "h \<in> set (fst (IterateCIDR P cidr))"
  shows "Host.Origin h = cidr \<and> Host.Type h = HostTypeIP"
proof (cases "P cidr")
  case None
  with assms show ?thesis by (simp add: IterateCIDR_def)
next
  case (Some n)
  obtain hs r where loop: "cidr_loop n cidr (NetIP n) 0 = (hs, r)"
    by (cases "cidr_loop n cidr (NetIP n) 0")
  with Some assms have "h \<in> set hs" by (simp add: IterateCIDR_def)
  with cidr_loop_sound [OF loop] show ?thesis by (auto simp: list_all_iff)
qed

lemma ParseHost_kinds:
  assumes "ParseHost w s = Inr h"
  shows "(Host.Type h = HostTypeDomain \<longrightarrow>
            ValidateDomainName (Host.Origin h) \<and> net_ParseIP w (Host.Origin h) = None)
       \<and> (Host.Type h = HostTypeIP \<longrightarrow> net_ParseIP w (Host.Origin h) \<noteq> None)"
  using assms
  by (auto simp: ParseHost_def Let_def HostTypeDomain_def HostTypeIP_def HostTypeCIDR_def
      split: option.splits if_splits)

lemma example_parse:
  "ParseHost example_world ''192.0.2.10''
     = Inr \<lparr>Host.IP = replicate 10 0 @ [255, 255, 192, 0, 2, 10], Host.Origin = ''192.0.2.10'',
           Host.Type = HostTypeIP\<rparr>"
  "ParseHost example_world ''good.example.test'' = Inr example_host"
  by code_simp+

lemma multi_san_not_domain: "\<not> ValidateDomainName (Join (n # m # ms) '','')"
proof
  assume v: "ValidateDomainName (Join (n # m # ms) '','')"
  have "CHR '','' \<in> set (Join (n # m # ms) '','')" by simp
  with ValidateDomainName_chars [OF v] show False by (auto simp: isAlnum_def)
qed

lemma multi_san_ping_never_feasible:
  assumes "net_DialTimeout w (ip_String w a @ '':'' @ Itoa (Config.Port cfg)) (Timeout cfg) = None"
    and "tls_Handshake w (ip_String w a @ '':'' @ Itoa (Config.Port cfg)) (tlsConfigFor origin) = Inr state"
    and "PeerCertificates state = cert # certs"
    and "DNSNames cert = n # m # ms"
    and "PingDomain sc"
  shows "\<not> Feasible (scanSingleIP cfg sc w geo a origin)"
proof -
  note p = probes_receive_cert_sans [OF assms(1-4), of sc geo]
  from p have cd: "CertDomain (scanSingleIP cfg sc w geo a origin) = Join (n # m # ms) '',''"
    and fe: "Feasible (scanSingleIP cfg sc w geo a origin)
         = fst (IsRealityFeasible sc w (scanSingleIP cfg sc w geo a origin))" by blast+
  have "\<not> CheckDomainConnectivity sc w (Join (n # m # ms) '','')"
    using assms(5) multi_san_not_domain [of n m ms] by (simp add: CheckDomainConnectivity_def)
  then show ?thesis
    unfolding fe IsRealityFeasible_verdict cd using assms(5) by simp
qed
text \<open>
  Claim C1. Every result that \<^verbatim>\<open>ScanTLS\<close> emits and that is feasible has an empty
  error, TLS version "TLS 1.3", ALPN "h2", curve "X25519", a non-empty certificate domain
  and a non-empty certificate issuer. On each error path (a domain that does not resolve,
  a TCP dial that fails, a TLS handshake that fails) the emitted result is not feasible
  and carries an error.
\<close>

theorem feasible_implies_checks:
  "(r \<in> set (ScanTLS cfg sc w geo host) \<longrightarrow>
      (Feasible r \<longrightarrow>
         Error r = [] \<and> TLSVersion r = ''TLS 1.3'' \<and> ALPN r = ''h2'' \<and> Curve r = ''X25519''
         \<and> CertDomain r \<noteq> [] \<and> CertIssuer r \<noteq> []))
   \<and> (Host.Type host = HostTypeDomain \<and> ResolveDomain cfg w (Host.Origin host) = Inl e \<longrightarrow>
        length (ScanTLS cfg sc w geo host) = 1
        \<and> list_all (\<lambda>r. \<not> Feasible r \<and> Error r \<noteq> []) (ScanTLS cfg sc w geo host))
   \<and> (net_DialTimeout w (ip_String w a @ '':'' @ Itoa (Config.Port cfg)) (Timeout cfg) = Some e1 \<longrightarrow>
        \<not> Feasible (scanSingleIP cfg sc w geo a origin)
        \<and> Error (scanSingleIP cfg sc w geo a origin) \<noteq> [])
   \<and> (net_DialTimeout w (ip_String w a @ '':'' @ Itoa (Config.Port cfg)) (Timeout cfg) = None
       \<and> tls_Handshake w (ip_String w a @ '':'' @ Itoa (Config.Port cfg)) (tlsConfigFor origin) = Inl e2 \<longrightarrow>
        \<not> Feasible (scanSingleIP cfg sc w geo a origin)
        \<and> Error (scanSingleIP cfg sc w geo a origin) \<noteq> [])"
proof (intro conjI impI)
  assume "r \<in> set (ScanTLS cfg sc w geo host)" and "Feasible r"
  then have "result_ok r" "Feasible r" by (simp_all add: ScanTLS_ok)
  then show "Error r = []" "TLSVersion r = ''TLS 1.3''" "ALPN r = ''h2''" "Curve r = ''X25519''"
    "CertDomain r \<noteq> []" "CertIssuer r \<noteq> []"
    by (simp_all add: result_ok_def)
next
  assume "Host.Type host = HostTypeDomain \<and> ResolveDomain cfg w (Host.Origin host) = Inl e"
  then have s: "ScanTLS cfg sc w geo host
       = [(newResult [] (Host.Origin host) (Config.Port cfg))\<lparr>Error := msg_resolve_failed @ e\<rparr>]"
    by (simp add: ScanTLS_dns_error)
  show "length (ScanTLS cfg sc w geo host) = 1" unfolding s by simp
  show "list_all (\<lambda>r. \<not> Feasible r \<and> Error r \<noteq> []) (ScanTLS cfg sc w geo host)"
    unfolding s by (simp add: newResult_clean msg_nonempty)
next
  assume "net_DialTimeout w (ip_String w a @ '':'' @ Itoa (Config.Port cfg)) (Timeout cfg) = Some e1"
  from scanSingleIP_dial_error [OF this]
  show "\<not> Feasible (scanSingleIP cfg sc w geo a origin)"
    "Error (scanSingleIP cfg sc w geo a origin) \<noteq> []" by simp_all
next
  assume "net_DialTimeout w (ip_String w a @ '':'' @ Itoa (Config.Port cfg)) (Timeout cfg) = None
       \<and> tls_Handshake w (ip_String w a @ '':'' @ Itoa (Config.Port cfg)) (tlsConfigFor origin) = Inl e2"
  then have "\<not> Feasible (scanSingleIP cfg sc w geo a origin)
        \<and> Error (scanSingleIP cfg sc w geo a origin) \<noteq> []"
    by (intro scanSingleIP_tls_error) simp_all
  then show "\<not> Feasible (scanSingleIP cfg sc w geo a origin)"
    "Error (scanSingleIP cfg sc w geo a origin) \<noteq> []" by simp_all
qed

theorem feasible_implies_checks_witness:
  "ScanTLS example_config example_control example_world None example_host = [example_result]
   \<and> Feasible example_result \<and> Error example_result = [] \<and> TLSVersion example_result = ''TLS 1.3''
   \<and> ALPN example_result = ''h2'' \<and> Curve example_result = ''X25519''
   \<and> CertDomain example_result \<noteq> [] \<and> CertIssuer example_result \<noteq> []
   \<and> net_DialTimeout example_world
        (ip_String example_world [192, 0, 2, 99] @ '':'' @ Itoa (Config.Port example_config))
        (Timeout example_config) = Some ''connection refused''
   \<and> \<not> Feasible (scanSingleIP example_config example_control example_world None [192, 0, 2, 99] ''192.0.2.99'')
   \<and> Error (scanSingleIP example_config example_control example_world None [192, 0, 2, 99] ''192.0.2.99'') \<noteq> []"
proof -
  have m: "example_result \<in> set (ScanTLS example_config example_control example_world None example_host)"
    by (simp add: example_scan)
  have f: "Feasible example_result" by (simp add: example_result_def)
  note t = feasible_implies_checks [of example_result example_config example_control
      example_world None example_host "[]" "[192, 0, 2, 99]" "''connection refused''"
      "''192.0.2.99''" "[]"]
  from t m f have 1: "Error example_result = [] \<and> TLSVersion example_result = ''TLS 1.3''
      \<and> ALPN example_result = ''h2'' \<and> Curve example_result = ''X25519''
      \<and> CertDomain example_result \<noteq> [] \<and> CertIssuer example_result \<noteq> []" by blast
  from t example_dial_fails
  have 2: "\<not> Feasible (scanSingleIP example_config example_control example_world None [192, 0, 2, 99] ''192.0.2.99'')
      \<and> Error (scanSingleIP example_config example_control example_world None [192, 0, 2, 99] ''192.0.2.99'') \<noteq> []"
    by blast
  from 1 2 f example_scan example_dial_fails show ?thesis by blast
qed


text \<open>
  Claim C2 at a certificate with the two DNS names cf.example.test and www.example.test:
  the Cloudflare detector and the connectivity check are both called with the
  comma-joined string of all names, not with the first name. The detector, which finds
  Cloudflare at the first name, does not find it at the joined string, and the
  connectivity check rejects the joined string; with the ping check off the result
  comes out feasible.
\<close>

theorem multi_san_probes_get_joined_names:
  "tls_Handshake example_world ''192.0.2.20:443'' (tlsConfigFor ''192.0.2.20'')
     = Inr (example_state example_cert2)
   \<and> DNSNames example_cert2 = [''cf.example.test'', ''www.example.test'']
   \<and> snd (IsRealityFeasible example_control example_world
        (scanSingleIP example_config example_control example_world None [192, 0, 2, 20] ''192.0.2.20''))
     = [Call_DetectCloudflareCDN ''cf.example.test,www.example.test'',
        Call_CheckDomainConnectivity ''cf.example.test,www.example.test'']
   \<and> ''cf.example.test,www.example.test'' \<noteq> hd (DNSNames example_cert2)
   \<and> DetectCloudflareCDN example_world ''cf.example.test''
   \<and> \<not> DetectCloudflareCDN example_world ''cf.example.test,www.example.test''
   \<and> \<not> CheckDomainConnectivity example_control example_world ''cf.example.test,www.example.test''
   \<and> Feasible (scanSingleIP example_config example_quota example_world None [192, 0, 2, 20]
        ''192.0.2.20'')"
  by code_simp
text \<open>
  Claim C3. The probe of a target that the parser gives the kind Domain sends the origin
  as server name indication. The probe of a target of kind IP sends none: this holds of
  a target that the parser gives the kind IP, of every target of the seed enumerator,
  and of every target of the CIDR enumerator, whose origin is the CIDR string
  (\<^verbatim>\<open>net.ParseCIDR\<close> accepts only a string with a slash). For a dotted quad the
  configured \<^verbatim>\<open>ServerName\<close> is the origin, and the library sends no indication
  for an IP literal.
\<close>

theorem server_name_by_kind:
  "(ParseHost w s = Inr h \<and> Host.Type h = HostTypeDomain \<longrightarrow>
      sentServerName w (Host.Origin h) = Host.Origin h)
   \<and> (ParseHost w s = Inr h \<and> Host.Type h = HostTypeIP \<longrightarrow>
      sentServerName w (Host.Origin h) = [])
   \<and> (ha \<in> set (sent (fst (IterateAddr (net_ParseIP w) addr))) \<longrightarrow>
      Host.Type ha = HostTypeIP \<and> sentServerName w (Host.Origin ha) = [])
   \<and> (hc \<in> set (fst (IterateCIDR (net_ParseCIDR w) cidr)) \<and> CHR ''/'' \<in> set cidr \<longrightarrow>
      Host.Type hc = HostTypeIP \<and> sentServerName w (Host.Origin hc) = [])"
proof (intro conjI impI)
  assume "ParseHost w s = Inr h \<and> Host.Type h = HostTypeDomain"
  with ParseHost_kinds [of w s h]
  show "sentServerName w (Host.Origin h) = Host.Origin h" by (simp add: sentServerName_domain)
next
  assume "ParseHost w s = Inr h \<and> Host.Type h = HostTypeIP"
  with ParseHost_kinds [of w s h]
  show "sentServerName w (Host.Origin h) = []" by (simp add: sentServerName_ip)
next
  assume a: "ha \<in> set (sent (fst (IterateAddr (net_ParseIP w) addr)))"
  from IterateAddr_sent [OF a] show "Host.Type ha = HostTypeIP" by simp
  from IterateAddr_sent [OF a] show "sentServerName w (Host.Origin ha) = []"
    by (simp add: sentServerName_ip)
next
  assume c: "hc \<in> set (fst (IterateCIDR (net_ParseCIDR w) cidr)) \<and> CHR ''/'' \<in> set cidr"
  then have h: "Host.Origin hc = cidr \<and> Host.Type hc = HostTypeIP"
    by (intro IterateCIDR_hosts [of hc "net_ParseCIDR w" cidr]) simp
  then show "Host.Type hc = HostTypeIP" by simp
  from h c show "sentServerName w (Host.Origin hc) = []" by (simp add: sentServerName_cidr)
qed

theorem server_name_by_kind_witness:
  "ParseHost example_world ''good.example.test'' = Inr example_host
   \<and> Host.Type example_host = HostTypeDomain
   \<and> sentServerName example_world (Host.Origin example_host) = ''good.example.test''
   \<and> ParseHost example_world ''192.0.2.10''
       = Inr \<lparr>Host.IP = replicate 10 0 @ [255, 255, 192, 0, 2, 10], Host.Origin = ''192.0.2.10'',
             Host.Type = HostTypeIP\<rparr>
   \<and> sentServerName example_world ''192.0.2.10'' = []"
proof -
  have d: "Host.Type example_host = HostTypeDomain" "Host.Origin example_host = ''good.example.test''"
    by (simp_all add: example_host_def)
  from server_name_by_kind [of example_world "''good.example.test''" example_host] example_parse(2) d
  have 1: "sentServerName example_world (Host.Origin example_host) = ''good.example.test''" by simp
  from server_name_by_kind [of example_world "''192.0.2.10''"
      "\<lparr>Host.IP = replicate 10 0 @ [255, 255, 192, 0, 2, 10], Host.Origin = ''192.0.2.10'',
        Host.Type = HostTypeIP\<rparr>"] example_parse(1)
  have 2: "sentServerName example_world ''192.0.2.10'' = []" by simp
  from 1 2 d example_parse show ?thesis by simp
qed
section \<open>Properties of the result sink and of the CSV file\<close>

lemma written_simps [simp]:
  "written sw n [] = []"
  "written sw n (r # rs) = csv_Write (record_of r (time_Now sw (n + 1))) @ written sw (n + 1) rs"
  by (simp_all add: written_def)

lemma upto_quota_prefix: "upto_quota m rs = take (length (upto_quota m rs)) rs"
  by (induction rs arbitrary: m) auto

lemma upto_quota_count:
  "1 \<le> m \<Longrightarrow> m \<le> length (filter Feasible rs) \<Longrightarrow>
     length (filter Feasible (upto_quota m rs)) = m
     \<and> upto_quota m rs \<noteq> [] \<and> Feasible (last (upto_quota m rs))"
proof (induction rs arbitrary: m)
  case Nil
  then show ?case by simp
next
  case (Cons r rs)
  show ?case
  proof (cases "Feasible r")
    case False
    with Cons.prems Cons.IH [of m] show ?thesis by simp
  next
    case True
    show ?thesis
    proof (cases "m \<le> 1")
      case True
      with \<open>Feasible r\<close> Cons.prems show ?thesis by simp
    next
      case False
      with \<open>Feasible r\<close> Cons.prems Cons.IH [of "m - 1"] show ?thesis by auto
    qed
  qed
qed

lemma upto_quota_all:
  "length (filter Feasible rs) < m \<Longrightarrow> upto_quota m rs = rs"
  by (induction rs arbitrary: m) auto

lemma ProcessResults_quota:
  assumes "\<forall>r \<in> set rs. Feasible r \<longrightarrow> Error r = []"
    and "\<forall>n. write_error sw n = None"
    and "StopOnMax sc" and "MaxResults sc = feasibleCount rp + int m" and "1 \<le> m"
  shows "ProcessResults sc sw rp rs =
     rp\<lparr>csvWriter := csvWriter rp @ written sw (totalCount rp) (upto_quota m rs),
        totalCount := totalCount rp + int (length (upto_quota m rs)),
        feasibleCount := feasibleCount rp + int (length (filter Feasible (upto_quota m rs))),
        errorCount := errorCount rp + int (length (filter (\<lambda>r. Error r \<noteq> []) (upto_quota m rs)))\<rparr>"
  using assms
proof (induction rs arbitrary: rp m)
  case Nil
  then show ?case by simp
next
  case (Cons r rs)
  have w: "WriteResult sw n cw r = Inr (cw @ csv_Write (record_of r (time_Now sw n)))" for n cw
    using Cons.prems(2) by (simp add: WriteResult_def)
  have wf: "\<forall>r \<in> set rs. Feasible r \<longrightarrow> Error r = []" using Cons.prems(1) by simp
  show ?case
  proof (cases "Error r \<noteq> []")
    case True
    then have nf: "\<not> Feasible r" using Cons.prems(1) by auto
    let ?rp = "rp\<lparr>totalCount := totalCount rp + 1,
        csvWriter := csvWriter rp @ csv_Write (record_of r (time_Now sw (totalCount rp + 1))),
        errorCount := errorCount rp + 1\<rparr>"
    have "ProcessResults sc sw rp (r # rs) = ProcessResults sc sw ?rp rs"
      using True by (simp add: w Let_def)
    also have "\<dots> = ?rp\<lparr>csvWriter := csvWriter ?rp @ written sw (totalCount ?rp) (upto_quota m rs),
        totalCount := totalCount ?rp + int (length (upto_quota m rs)),
        feasibleCount := feasibleCount ?rp + int (length (filter Feasible (upto_quota m rs))),
        errorCount := errorCount ?rp + int (length (filter (\<lambda>r. Error r \<noteq> []) (upto_quota m rs)))\<rparr>"
      using Cons.prems by (intro Cons.IH wf) simp_all
    finally show ?thesis using True nf by simp
  next
    case noerr: False
    show ?thesis
    proof (cases "Feasible r")
      case False
      let ?rp = "rp\<lparr>totalCount := totalCount rp + 1,
          csvWriter := csvWriter rp @ csv_Write (record_of r (time_Now sw (totalCount rp + 1)))\<rparr>"
      have "ProcessResults sc sw rp (r # rs) = ProcessResults sc sw ?rp rs"
        using False noerr by (simp add: w Let_def)
      also have "\<dots> = ?rp\<lparr>csvWriter := csvWriter ?rp @ written sw (totalCount ?rp) (upto_quota m rs),
          totalCount := totalCount ?rp + int (length (upto_quota m rs)),
          feasibleCount := feasibleCount ?rp + int (length (filter Feasible (upto_quota m rs))),
          errorCount := errorCount ?rp + int (length (filter (\<lambda>r. Error r \<noteq> []) (upto_quota m rs)))\<rparr>"
        using Cons.prems by (intro Cons.IH wf) simp_all
      finally show ?thesis using False noerr by simp
    next
      case True
      let ?rp = "rp\<lparr>totalCount := totalCount rp + 1,
          csvWriter := csvWriter rp @ csv_Write (record_of r (time_Now sw (totalCount rp + 1))),
          feasibleCount := feasibleCount rp + 1\<rparr>"
      show ?thesis
      proof (cases "m \<le> 1")
        case last: True
        with Cons.prems have "m = 1" by simp
        then have "ProcessResults sc sw rp (r # rs) = ?rp"
          using True noerr Cons.prems(3,4) by (simp add: w Let_def)
        then show ?thesis using True noerr \<open>m = 1\<close> by simp
      next
        case more: False
        then have "ProcessResults sc sw rp (r # rs) = ProcessResults sc sw ?rp rs"
          using True noerr Cons.prems(3,4) by (simp add: w Let_def)
        also have "\<dots> = ?rp\<lparr>csvWriter := csvWriter ?rp @ written sw (totalCount ?rp) (upto_quota (m - 1) rs),
            totalCount := totalCount ?rp + int (length (upto_quota (m - 1) rs)),
            feasibleCount := feasibleCount ?rp + int (length (filter Feasible (upto_quota (m - 1) rs))),
            errorCount := errorCount ?rp + int (length (filter (\<lambda>r. Error r \<noteq> []) (upto_quota (m - 1) rs)))\<rparr>"
          using Cons.prems more by (intro Cons.IH wf) simp_all
        finally show ?thesis using True noerr more by simp
      qed
    qed
  qed
qed


lemma NewResultProcessorWithProgress_Inr:
  "NewResultProcessorWithProgress sw = Inr rp \<Longrightarrow>
     rp = \<lparr>csvWriter = csv_Write headers, totalCount = 0, feasibleCount = 0, errorCount = 0\<rparr>"
  by (auto simp: NewResultProcessorWithProgress_def NewCSVWriter_def split: option.splits)

lemma example_quota_prefix: "upto_quota 2 example_stream = take 4 example_stream"
  by code_simp

lemma Split_no_sep: "sep \<notin> set x \<Longrightarrow> Split x sep = [x]"
  by (induction x) auto

lemma Split_append_sep: "sep \<notin> set x \<Longrightarrow> Split (x @ sep # rest) sep = x # Split rest sep"
  by (induction x) auto

lemma Split_Join:
  "fs \<noteq> [] \<Longrightarrow> \<forall>f \<in> set fs. sep \<notin> set f \<Longrightarrow> Split (Join fs [sep]) sep = fs"
proof (induction fs "[sep]" rule: Join.induct)
  case 1
  then show ?case by simp
next
  case (2 x)
  then show ?case by (simp add: Split_no_sep)
next
  case (3 x y ys)
  then show ?case by (simp add: Split_append_sep)
qed

lemma unquoted_no_special: "\<not> fieldNeedsQuotes f \<Longrightarrow> c \<in> set f \<Longrightarrow> \<not> special c"
  by (auto simp: fieldNeedsQuotes_def list_ex_iff split: if_splits)

lemma csv_Write_unquoted:
  "\<forall>f \<in> set rcd. \<not> fieldNeedsQuotes f \<Longrightarrow> csv_Write rcd = Join rcd '','' @ [CHR 0x0A]"
proof -
  assume "\<forall>f \<in> set rcd. \<not> fieldNeedsQuotes f"
  then have "map (\<lambda>field. if fieldNeedsQuotes field then quoted field else field) rcd = rcd"
    by (induction rcd) auto
  then show ?thesis by (simp add: csv_Write_def)
qed

lemma Join_unquoted_chars:
  assumes "\<forall>f \<in> set rcd. \<not> fieldNeedsQuotes f" and "c \<in> set (Join rcd '','')"
  shows "c \<noteq> CHR 0x0A \<and> c \<noteq> CHR 0x0D"
proof -
  from assms(2) set_Join [of rcd "'',''"] have "c = CHR '','' \<or> (\<exists>f \<in> set rcd. c \<in> set f)"
    by auto
  then show ?thesis
  proof
    assume "c = CHR '',''"
    then show ?thesis by simp
  next
    assume "\<exists>f \<in> set rcd. c \<in> set f"
    then obtain f where "f \<in> set rcd" "c \<in> set f" by blast
    with assms(1) have "\<not> fieldNeedsQuotes f" "c \<in> set f" by simp_all
    then have "\<not> special c" by (rule unquoted_no_special)
    then show ?thesis by (simp add: special_def)
  qed
qed

lemma unquoted_no_comma:
  "\<forall>f \<in> set rcd. \<not> fieldNeedsQuotes f \<Longrightarrow> \<forall>f \<in> set rcd. CHR '','' \<notin> set f"
  using unquoted_no_special by (fastforce simp: special_def)

lemma scan_lines_Nil: "scan_lines [] = []"
  by (simp add: scan_lines.simps)

lemma scan_lines_line:
  assumes "CHR 0x0A \<notin> set l" and "length l < MaxScanTokenSize"
  shows "scan_lines (l @ CHR 0x0A # rest) = dropCR l # scan_lines rest"
proof -
  have t: "takeWhile (\<lambda>c. c \<noteq> CHR 0x0A) (l @ CHR 0x0A # rest) = l"
    using assms(1) by (induction l) auto
  have d: "dropWhile (\<lambda>c. c \<noteq> CHR 0x0A) (l @ CHR 0x0A # rest) = CHR 0x0A # rest"
    using assms(1) by (induction l) auto
  show ?thesis
    using assms(2) by (subst scan_lines.simps) (simp add: t d Let_def)
qed

lemma dropCR_id:
  assumes "CHR 0x0D \<notin> set l"
  shows "dropCR l = l"
proof (cases "l = []")
  case True
  then show ?thesis by (simp add: dropCR_def)
next
  case False
  then have "last l \<in> set l" by (rule last_in_set)
  with assms have "last l \<noteq> CHR 0x0D" by auto
  then show ?thesis by (simp add: dropCR_def)
qed

lemma scan_lines_records:
  assumes "\<forall>rcd \<in> set records. (\<forall>field \<in> set rcd. \<not> fieldNeedsQuotes field)
             \<and> length (csv_Write rcd) \<le> MaxScanTokenSize"
  shows "scan_lines (concat (map csv_Write records)) = map (\<lambda>rcd. Join rcd '','') records"
  using assms
proof (induction records)
  case Nil
  then show ?case by (simp add: scan_lines_Nil)
next
  case (Cons rcd records)
  from Cons.prems have u: "\<forall>f \<in> set rcd. \<not> fieldNeedsQuotes f"
    and len: "length (csv_Write rcd) \<le> MaxScanTokenSize" by simp_all
  note w = csv_Write_unquoted [OF u]
  have lf: "CHR 0x0A \<notin> set (Join rcd '','')" and cr: "CHR 0x0D \<notin> set (Join rcd '','')"
    using Join_unquoted_chars [OF u] by blast+
  have l: "length (Join rcd '','') < MaxScanTokenSize" using len unfolding w by simp
  have "scan_lines (concat (map csv_Write (rcd # records)))
      = scan_lines (Join rcd '','' @ CHR 0x0A # concat (map csv_Write records))"
    by (simp add: w)
  also have "\<dots> = dropCR (Join rcd '','') # scan_lines (concat (map csv_Write records))"
    by (rule scan_lines_line [OF lf l])
  finally show ?case using Cons.IH Cons.prems by (simp add: dropCR_id [OF cr])
qed

lemma header_line: "csv_Write headers
    = ''IP,ORIGIN,PORT,CERT_DOMAIN,CERT_ISSUER,TLS_VERSION,ALPN,CURVE,GEO_CODE,FEASIBLE,RESPONSE_TIME_MS,ERROR,SCAN_TIME''
      @ CHR 0x0A # []"
  by code_simp

lemma scan_lines_file:
  assumes "\<forall>rcd \<in> set records. (\<forall>field \<in> set rcd. \<not> fieldNeedsQuotes field)
             \<and> length (csv_Write rcd) \<le> MaxScanTokenSize"
  shows "tl (scan_lines (csv_Write headers @ concat (map csv_Write records)))
           = map (\<lambda>rcd. Join rcd '','') records"
proof -
  let ?h = "''IP,ORIGIN,PORT,CERT_DOMAIN,CERT_ISSUER,TLS_VERSION,ALPN,CURVE,GEO_CODE,FEASIBLE,RESPONSE_TIME_MS,ERROR,SCAN_TIME''"
  have "scan_lines (?h @ CHR 0x0A # concat (map csv_Write records))
      = dropCR ?h # scan_lines (concat (map csv_Write records))"
    by (rule scan_lines_line) (simp_all add: MaxScanTokenSize_def)
  then show ?thesis
    unfolding header_line using scan_lines_records [OF assms] by simp
qed

lemma Split_records:
  assumes "\<forall>rcd \<in> set records. rcd \<noteq> [] \<and> (\<forall>field \<in> set rcd. \<not> fieldNeedsQuotes field)"
  shows "map (\<lambda>line. Split line (CHR '','')) (map (\<lambda>rcd. Join rcd '','') records) = records"
  using assms
proof (induction records)
  case Nil
  then show ?case by simp
next
  case (Cons rcd records)
  then have "rcd \<noteq> []" "\<forall>f \<in> set rcd. CHR '','' \<notin> set f"
    using unquoted_no_comma [of rcd] by simp_all
  then have "Split (Join rcd [CHR '','']) (CHR '','') = rcd" by (rule Split_Join)
  with Cons show ?case by simp
qed

lemma stamped_records:
  "rcd \<in> set (stamped sw n rs) \<Longrightarrow> length rcd = 13"
  by (induction rs arbitrary: n) (auto simp: record_of_def)

lemma stamped_feasible:
  "map (\<lambda>rcd. rcd ! 9 = ''true'') (stamped sw n rs) = map Feasible rs"
  by (induction rs arbitrary: n) (auto simp: record_of_def FormatBool_def)

lemma ProcessResults_all:
  "\<not> StopOnMax sc \<Longrightarrow> \<forall>n. write_error sw n = None \<Longrightarrow>
     csvWriter (ProcessResults sc sw rp rs) = csvWriter rp @ written sw (totalCount rp) rs"
  by (induction rs arbitrary: rp) (simp_all add: WriteResult_def Let_def)

lemma loadFeasibleResults_unquoted:
  assumes "NewResultProcessorWithProgress sw = Inr rp" and "\<not> StopOnMax sc"
    and "\<forall>n. write_error sw n = None"
    and "\<forall>record \<in> set (stamped sw 0 rs). (\<forall>field \<in> set record. \<not> fieldNeedsQuotes field)
           \<and> length (csv_Write record) \<le> MaxScanTokenSize"
  shows "loadFeasibleResults (Some (csvWriter (ProcessResults sc sw rp rs)))
           = Inr (filter (\<lambda>record. record ! 9 = ''true'') (stamped sw 0 rs))"
proof -
  note rp = NewResultProcessorWithProgress_Inr [OF assms(1)]
  have contents: "csvWriter (ProcessResults sc sw rp rs)
      = csv_Write headers @ concat (map csv_Write (stamped sw 0 rs))"
    using ProcessResults_all [OF assms(2,3), of rp rs] rp by (simp add: written_def)
  have ne: "\<forall>record \<in> set (stamped sw 0 rs). record \<noteq> [] \<and> (\<forall>field \<in> set record. \<not> fieldNeedsQuotes field)"
    using assms(4) stamped_records [of _ sw 0 rs] by fastforce
  have parts: "map (\<lambda>line. Split line (CHR '','')) (tl (scan_lines (csvWriter (ProcessResults sc sw rp rs))))
      = stamped sw 0 rs"
    unfolding contents scan_lines_file [OF assms(4)] by (rule Split_records [OF ne])
  have "filter (\<lambda>parts. length parts \<ge> 10 \<and> parts ! 9 = ''true'') (stamped sw 0 rs)
      = filter (\<lambda>record. record ! 9 = ''true'') (stamped sw 0 rs)"
    by (rule filter_cong) (auto dest: stamped_records)
  then show ?thesis
    by (simp add: loadFeasibleResults_def parts)
qed

lemma example_records_unquoted:
  "list_all (\<lambda>field. \<not> fieldNeedsQuotes field) (record_of example_failure ''2024-01-01 00:00:00'')"
  "list_all (\<lambda>field. \<not> fieldNeedsQuotes field) (record_of example_result ''2024-01-01 00:00:00'')"
  by code_simp+

lemma example_records_short:
  "length (csv_Write (record_of example_failure ''2024-01-01 00:00:00'')) < 200"
  "length (csv_Write (record_of example_result ''2024-01-01 00:00:00'')) < 200"
  by code_simp+

lemma example_records_feasible:
  "record_of example_failure ''2024-01-01 00:00:00'' ! 9 = ''false''"
  "record_of example_result ''2024-01-01 00:00:00'' ! 9 = ''true''"
  by code_simp+

lemma example_stamped:
  "stamped example_sink 0 [example_failure, example_result]
     = [record_of example_failure ''2024-01-01 00:00:00'',
        record_of example_result ''2024-01-01 00:00:00'']"
  "stamped example_sink 0 [example_failure] = [record_of example_failure ''2024-01-01 00:00:00'']"
  "stamped example_sink 0 [example_multi] = [record_of example_multi ''2024-01-01 00:00:00'']"
  by (simp_all add: example_sink_def)

lemma example_processor_new: "NewResultProcessorWithProgress example_sink = Inr example_processor"
  by code_simp

lemma example_sink_writes: "\<forall>n. write_error example_sink n = None"
  by (simp add: example_sink_def)

lemma quoted_record_line:
  "csv_Write (record_of example_multi ''2024-01-01 00:00:00'')
     = (''192.0.2.10,good.example.test,443,'' @ [CHR 0x22] @ ''cf.example.test,www.example.test''
        @ [CHR 0x22] @ '',Test CA,TLS 1.3,h2,X25519,,true,42,,2024-01-01 00:00:00'') @ CHR 0x0A # []"
  by code_simp

lemma quoted_record_split:
  "Split (''192.0.2.10,good.example.test,443,'' @ [CHR 0x22] @ ''cf.example.test,www.example.test''
        @ [CHR 0x22] @ '',Test CA,TLS 1.3,h2,X25519,,true,42,,2024-01-01 00:00:00'') (CHR '','') ! 9
     = []"
  by code_simp

lemma loader_drops_quoted_record:
  "Feasible example_multi
   \<and> loadFeasibleResults
        (Some (csvWriter (ProcessResults example_control example_sink example_processor [example_multi])))
     = Inr []"
proof -
  let ?h = "''IP,ORIGIN,PORT,CERT_DOMAIN,CERT_ISSUER,TLS_VERSION,ALPN,CURVE,GEO_CODE,FEASIBLE,RESPONSE_TIME_MS,ERROR,SCAN_TIME''"
  let ?l = "''192.0.2.10,good.example.test,443,'' @ [CHR 0x22] @ ''cf.example.test,www.example.test''
        @ [CHR 0x22] @ '',Test CA,TLS 1.3,h2,X25519,,true,42,,2024-01-01 00:00:00''"
  have 2: "\<not> StopOnMax example_control" by (simp add: example_control_def)
  have c: "csvWriter (ProcessResults example_control example_sink example_processor [example_multi])
      = ?h @ CHR 0x0A # (?l @ CHR 0x0A # [])"
    using ProcessResults_all [OF 2 example_sink_writes, of example_processor "[example_multi]"]
      example_stamped(3)
    by (simp add: example_processor_def written_def header_line quoted_record_line)
  have "scan_lines (?l @ CHR 0x0A # []) = dropCR ?l # scan_lines []"
    by (rule scan_lines_line) (simp_all add: MaxScanTokenSize_def)
  then have l: "scan_lines (?l @ CHR 0x0A # []) = [?l]"
    by (simp add: scan_lines_Nil dropCR_id)
  have "scan_lines (?h @ CHR 0x0A # (?l @ CHR 0x0A # [])) = dropCR ?h # scan_lines (?l @ CHR 0x0A # [])"
    by (rule scan_lines_line) (simp_all add: MaxScanTokenSize_def)
  then have "tl (scan_lines (?h @ CHR 0x0A # (?l @ CHR 0x0A # []))) = [?l]"
    using l by simp
  then have "loadFeasibleResults
        (Some (csvWriter (ProcessResults example_control example_sink example_processor [example_multi])))
      = Inr []"
    unfolding c loadFeasibleResults_def using quoted_record_split by simp
  moreover have "Feasible example_multi" by (simp add: example_multi_def example_result_def)
  ultimately show ?thesis by simp
qed
text \<open>
  Claim C7. With \<^verbatim>\<open>StopOnMax\<close> set and \<^verbatim>\<open>MaxResults = M\<close>, \<open>M\<close> at least 1, on a
  stream of results that satisfy the invariant of C1 and hold at least \<open>M\<close> feasible
  ones, and with no failing write, the file is the header followed by the records of the
  prefix of the stream that ends with the \<open>M\<close>-th feasible result: nothing later is
  written, and the output holds exactly \<open>M\<close> feasible records.
\<close>

theorem ProcessResults_stops_at_quota:
  assumes "NewResultProcessorWithProgress sw = Inr rp"
    and "\<forall>r \<in> set rs. Feasible r \<longrightarrow> Error r = []"
    and "\<forall>n. write_error sw n = None"
    and "StopOnMax sc" and "MaxResults sc = int M" and "1 \<le> M"
    and "M \<le> length (filter Feasible rs)"
  shows "csvWriter (ProcessResults sc sw rp rs) = csv_Write headers @ written sw 0 (upto_quota M rs)
     \<and> upto_quota M rs = take (length (upto_quota M rs)) rs
     \<and> Feasible (last (upto_quota M rs))
     \<and> length (filter Feasible (upto_quota M rs)) = M
     \<and> feasibleCount (ProcessResults sc sw rp rs) = int M
     \<and> totalCount (ProcessResults sc sw rp rs) = int (length (upto_quota M rs))"
proof -
  note rp = NewResultProcessorWithProgress_Inr [OF assms(1)]
  have m: "MaxResults sc = feasibleCount rp + int M" using assms(5) rp by simp
  note run = ProcessResults_quota [OF assms(2,3,4) m assms(6)]
  note cnt = upto_quota_count [OF assms(6,7)]
  have "csvWriter (ProcessResults sc sw rp rs) = csv_Write headers @ written sw 0 (upto_quota M rs)"
    unfolding run using rp by simp
  moreover have "feasibleCount (ProcessResults sc sw rp rs) = int M"
    unfolding run using rp cnt by simp
  moreover have "totalCount (ProcessResults sc sw rp rs) = int (length (upto_quota M rs))"
    unfolding run using rp by simp
  ultimately show ?thesis using cnt upto_quota_prefix [of M rs] by blast
qed

theorem ProcessResults_stops_at_quota_witness:
  "NewResultProcessorWithProgress example_sink = Inr example_processor
   \<and> list_all (\<lambda>r. \<not> Feasible r \<or> Error r = []) example_stream
   \<and> StopOnMax example_quota \<and> MaxResults example_quota = 2
   \<and> 2 \<le> length (filter Feasible example_stream)
   \<and> csvWriter (ProcessResults example_quota example_sink example_processor example_stream)
       = csv_Write headers @ written example_sink 0 (take 4 example_stream)
   \<and> length (filter Feasible (take 4 example_stream)) = 2
   \<and> totalCount (ProcessResults example_quota example_sink example_processor example_stream) = 4"
proof -
  have 1: "NewResultProcessorWithProgress example_sink = Inr example_processor" by code_simp
  have 2: "\<forall>r \<in> set example_stream. Feasible r \<longrightarrow> Error r = []"
    by (simp add: example_stream_def example_failure_def example_result_def newResult_def)
  have 3: "\<forall>n. write_error example_sink n = None" by (simp add: example_sink_def)
  have 4: "StopOnMax example_quota" "MaxResults example_quota = int 2" "1 \<le> (2::nat)"
    by (simp_all add: example_quota_def)
  have 5: "2 \<le> length (filter Feasible example_stream)" by code_simp
  note t = ProcessResults_stops_at_quota [OF 1 2 3 4 5]
  have l: "list_all (\<lambda>r. \<not> Feasible r \<or> Error r = []) example_stream"
    using 2 by (simp add: list_all_iff)
  from t [unfolded example_quota_prefix] 1 l 4 5 show ?thesis
    by (simp add: example_stream_def)
qed


text \<open>
  Claim C8, as amended. When the results are written without a stop at a quota and
  without a failing write, every field being one that the CSV writer leaves unquoted and
  every line fitting the scanner's buffer, the loader returns exactly the records whose
  FEASIBLE field is "true", in the order written and with the fields written; these are
  the records of the feasible results.
\<close>

theorem written_then_loaded:
  assumes "NewResultProcessorWithProgress sw = Inr rp" and "\<not> StopOnMax sc"
    and "\<forall>n. write_error sw n = None"
    and "\<forall>record \<in> set (stamped sw 0 rs). (\<forall>field \<in> set record. \<not> fieldNeedsQuotes field)
           \<and> length (csv_Write record) \<le> MaxScanTokenSize"
  shows "loadFeasibleResults (Some (csvWriter (ProcessResults sc sw rp rs)))
           = Inr (filter (\<lambda>record. record ! 9 = ''true'') (stamped sw 0 rs))
       \<and> map (\<lambda>record. record ! 9 = ''true'') (stamped sw 0 rs) = map Feasible rs"
  using loadFeasibleResults_unquoted [OF assms] stamped_feasible [of sw 0 rs] by simp

theorem written_then_loaded_witness:
  "NewResultProcessorWithProgress example_sink = Inr example_processor
   \<and> \<not> StopOnMax example_control
   \<and> list_all (\<lambda>rcd. list_all (\<lambda>field. \<not> fieldNeedsQuotes field) rcd
                   \<and> length (csv_Write rcd) \<le> MaxScanTokenSize)
        (stamped example_sink 0 [example_failure, example_result])
   \<and> loadFeasibleResults
        (Some (csvWriter (ProcessResults example_control example_sink example_processor
                 [example_failure, example_result])))
       = Inr [record_of example_result ''2024-01-01 00:00:00'']"
proof -
  have 2: "\<not> StopOnMax example_control" by (simp add: example_control_def)
  have u: "list_all (\<lambda>rcd. list_all (\<lambda>field. \<not> fieldNeedsQuotes field) rcd
                   \<and> length (csv_Write rcd) \<le> MaxScanTokenSize)
        (stamped example_sink 0 [example_failure, example_result])"
    unfolding example_stamped
    using example_records_unquoted example_records_short by (simp add: MaxScanTokenSize_def)
  then have 4: "\<forall>rcd \<in> set (stamped example_sink 0 [example_failure, example_result]).
      (\<forall>field \<in> set rcd. \<not> fieldNeedsQuotes field) \<and> length (csv_Write rcd) \<le> MaxScanTokenSize"
    by (simp add: list_all_iff)
  note t = written_then_loaded [OF example_processor_new 2 example_sink_writes 4]
  have "filter (\<lambda>rcd. rcd ! 9 = ''true'') (stamped example_sink 0 [example_failure, example_result])
      = [record_of example_result ''2024-01-01 00:00:00'']"
    unfolding example_stamped by (simp add: example_records_feasible)
  with t example_processor_new 2 u show ?thesis by simp
qed

text \<open>
  The claim as stated fails for a single result that is not feasible: its record is
  written, and the loader, which keeps the feasible records only, returns none.
\<close>

theorem loader_keeps_feasible_only_counterexample:
  "csvWriter (ProcessResults example_control example_sink example_processor [example_failure])
     = csv_Write headers @ csv_Write (record_of example_failure ''2024-01-01 00:00:00'')
   \<and> loadFeasibleResults
        (Some (csvWriter (ProcessResults example_control example_sink example_processor [example_failure])))
     = Inr []"
proof -
  have 2: "\<not> StopOnMax example_control" by (simp add: example_control_def)
  have 4: "\<forall>rcd \<in> set (stamped example_sink 0 [example_failure]).
      (\<forall>field \<in> set rcd. \<not> fieldNeedsQuotes field) \<and> length (csv_Write rcd) \<le> MaxScanTokenSize"
    unfolding example_stamped
    using example_records_unquoted example_records_short
    by (simp add: MaxScanTokenSize_def list_all_iff)
  have "csvWriter (ProcessResults example_control example_sink example_processor [example_failure])
      = csv_Write headers @ csv_Write (record_of example_failure ''2024-01-01 00:00:00'')"
    using ProcessResults_all [OF 2 example_sink_writes, of example_processor "[example_failure]"]
    by (simp add: example_processor_def example_sink_def)
  moreover have "loadFeasibleResults
        (Some (csvWriter (ProcessResults example_control example_sink example_processor [example_failure])))
      = Inr (filter (\<lambda>rcd. rcd ! 9 = ''true'') (stamped example_sink 0 [example_failure]))"
    by (rule loadFeasibleResults_unquoted [OF example_processor_new 2 example_sink_writes 4])
  ultimately show ?thesis
    unfolding example_stamped by (simp add: example_records_feasible)
qed

end
